theory Spec2Isabelle
  imports Main "HOL-Library.Word" "HOL-Library.AList"
begin

section \<open>JavaScript values\<close>

text \<open>
  A JavaScript string is a sequence of UTF-16 code units; \<open>length\<close> counts code units, as
  \<^verbatim>\<open>String.prototype.length\<close> does. The literals of the source are ASCII and are
  written \<open>ascii ''...''\<close>.
\<close>

type_synonym jsstring = "16 word list"

definition ascii :: "string \<Rightarrow> jsstring" where
  "ascii s = map of_char s"

text \<open>
  The raw input of a validator is any JavaScript value that a request body can hold. Numbers
  are only ever inspected through \<^verbatim>\<open>typeof\<close> by these schemas, so their payload
  is an integer. An object is the list of its own enumerable properties in enumeration
  order; a lookup takes the first property of a name.
\<close>

datatype jsval =
    JUndefined
  | JNull
  | JBool bool
  | JNum int
  | JStr jsstring
  | JArr "jsval list"
  | JObj "(jsstring \<times> jsval) list"

text \<open>\<^verbatim>\<open>obj[key]\<close>: the property, or \<^verbatim>\<open>undefined\<close> when there is none.\<close>

definition js_get :: "(jsstring \<times> jsval) list \<Rightarrow> jsstring \<Rightarrow> jsval" where
  "js_get kvs k = (case map_of kvs k of None \<Rightarrow> JUndefined | Some v \<Rightarrow> v)"

text \<open>\<^verbatim>\<open>key in obj\<close>.\<close>

definition js_in :: "jsstring \<Rightarrow> (jsstring \<times> jsval) list \<Rightarrow> bool" where
  "js_in k kvs \<longleftrightarrow> k \<in> set (map fst kvs)"

text \<open>\<^verbatim>\<open>data.key\<close> on a value: a property access on a primitive finds none of the
  keys read here.\<close>

fun js_prop :: "jsval \<Rightarrow> jsstring \<Rightarrow> jsval" where
  "js_prop (JObj kvs) k = js_get kvs k"
| "js_prop _ k = JUndefined"

text \<open>\<^verbatim>\<open>!x\<close> is \<open>\<not> truthy x\<close>.\<close>

fun truthy :: "jsval \<Rightarrow> bool" where
  "truthy JUndefined = False"
| "truthy JNull = False"
| "truthy (JBool b) = b"
| "truthy (JNum n) = (n \<noteq> 0)"
| "truthy (JStr s) = (s \<noteq> [])"
| "truthy (JArr xs) = True"
| "truthy (JObj kvs) = True"

text \<open>
  \<^verbatim>\<open>String.prototype.trim\<close> removes WhiteSpace and LineTerminator code points from both
  ends: TAB, LF, VT, FF, CR, SP, NBSP, U+1680, U+2000..U+200A, U+2028, U+2029, U+202F, U+205F,
  U+3000 and U+FEFF.
\<close>

definition isWhiteSpace :: "16 word \<Rightarrow> bool" where
  "isWhiteSpace c \<longleftrightarrow>
     c \<in> {9, 10, 11, 12, 13, 32, 160, 5760, 8232, 8233, 8239, 8287, 12288, 65279}
     \<or> (8192 \<le> c \<and> c \<le> 8202)"

definition trim :: "jsstring \<Rightarrow> jsstring" where
  "trim s = rev (dropWhile isWhiteSpace (rev (dropWhile isWhiteSpace s)))"

section \<open>The parts of zod that the schemas use\<close>

text \<open>
  The schemas are built from the combinators of the zod library, which is not part of the
  repository: each combinator is written here as zod 3.22.4 runs it, the release that the
  Medusa framework under this backend pins. A schema is modelled by its \<^verbatim>\<open>_parse\<close>
  method. One parse shares one list of issues, \<^verbatim>\<open>ctx.common.issues\<close>, among all the
  schemas it runs: a schema is given the issues that the list holds when it starts, the path
  of the value and the value, and it gives the parse status with the parsed value and the
  issues it appended to the list, in order, or the exception that escaped.
\<close>

datatype error = TypeError | Error

datatype ZodParsedType =
    t_undefined | t_null | t_boolean | t_number | t_string | t_array | t_object

fun getParsedType :: "jsval \<Rightarrow> ZodParsedType" where
  "getParsedType JUndefined = t_undefined"
| "getParsedType JNull = t_null"
| "getParsedType (JBool b) = t_boolean"
| "getParsedType (JNum n) = t_number"
| "getParsedType (JStr s) = t_string"
| "getParsedType (JArr xs) = t_array"
| "getParsedType (JObj kvs) = t_object"

text \<open>The issue codes, each with the payload that tells issues of one code apart:
  the received type, the unrecognised keys, the bound.\<close>

datatype ZodIssueCode =
    invalid_type ZodParsedType
  | invalid_enum_value
  | unrecognized_keys "jsstring list"
  | too_small nat
  | too_big nat
  | invalid_string
  | custom

text \<open>The message is \<open>None\<close> where zod's default error map writes it.\<close>

record ZodIssue =
  code :: ZodIssueCode
  path :: "jsstring list"
  message :: "jsstring option"

text \<open>\<^verbatim>\<open>INVALID\<close> is the status "aborted", which carries no value.\<close>

datatype ParseReturn = INVALID | DIRTY jsval | OK jsval

type_synonym ZodType =
  "ZodIssue list \<Rightarrow> jsstring list \<Rightarrow> jsval \<Rightarrow> error + (ParseReturn \<times> ZodIssue list)"

text \<open>The regular expression behind \<^verbatim>\<open>.email()\<close> is a constant of the library: the
  check carries its \<^verbatim>\<open>test\<close>, and the schemas below take it as the parameter
  \<open>emailRegex\<close>.\<close>

datatype ZodStringCheck = check_min nat | check_max nat | check_email "jsstring \<Rightarrow> bool"

fun string_check :: "jsstring list \<Rightarrow> jsstring \<Rightarrow> ZodStringCheck \<Rightarrow> ZodIssue list" where
  "string_check p s (check_min n) =
     (if length s < n then [\<lparr>code = too_small n, path = p, message = None\<rparr>] else [])"
| "string_check p s (check_max n) =
     (if length s > n then [\<lparr>code = too_big n, path = p, message = None\<rparr>] else [])"
| "string_check p s (check_email emailRegex) =
     (if \<not> emailRegex s then [\<lparr>code = invalid_string, path = p, message = None\<rparr>] else [])"

text \<open>\<^verbatim>\<open>ZodString._parse\<close>: a value that is not a string aborts; every check runs, and a
  failed check makes the status dirty.\<close>

definition ZodString :: "ZodStringCheck list \<Rightarrow> ZodType" where
  "ZodString checks ctx_issues p input =
     (case input of
        JStr s \<Rightarrow>
          (let issues = concat (map (string_check p s) checks)
           in Inr (if issues = [] then OK input else DIRTY input, issues))
      | _ \<Rightarrow> Inr (INVALID, [\<lparr>code = invalid_type (getParsedType input), path = p, message = None\<rparr>]))"

text \<open>\<^verbatim>\<open>ZodEnum._parse\<close>: both failures abort.\<close>

definition ZodEnum :: "jsstring list \<Rightarrow> ZodType" where
  "ZodEnum values ctx_issues p input =
     (case input of
        JStr s \<Rightarrow>
          (if s \<in> set values then Inr (OK input, [])
           else Inr (INVALID, [\<lparr>code = invalid_enum_value, path = p, message = None\<rparr>]))
      | _ \<Rightarrow> Inr (INVALID, [\<lparr>code = invalid_type (getParsedType input), path = p, message = None\<rparr>]))"

definition ZodOptional :: "ZodType \<Rightarrow> ZodType" where
  "ZodOptional inner ctx_issues p input =
     (if input = JUndefined then Inr (OK JUndefined, []) else inner ctx_issues p input)"

definition ZodNullable :: "ZodType \<Rightarrow> ZodType" where
  "ZodNullable inner ctx_issues p input =
     (if input = JNull then Inr (OK JNull, []) else inner ctx_issues p input)"

text \<open>\<^verbatim>\<open>.nullish()\<close> is \<^verbatim>\<open>.nullable().optional()\<close>.\<close>

definition nullish :: "ZodType \<Rightarrow> ZodType" where
  "nullish inner = ZodOptional (ZodNullable inner)"

text \<open>\<^verbatim>\<open>z.preprocess(f, schema)\<close>, the preprocess branch of \<^verbatim>\<open>ZodEffects._parse\<close>:
  the function runs on the raw value, before any type check and outside any handler. Then
  \<^verbatim>\<open>if (ctx.common.issues.length) return { status: "dirty", value: ctx.data }\<close>: when the
  parse already holds an issue, of whatever field, the inner schema does not run, and the raw
  value comes back dirty with no issue of its own. Otherwise the schema parses what the
  function returned.\<close>

definition preprocess :: "(jsval \<Rightarrow> error + jsval) \<Rightarrow> ZodType \<Rightarrow> ZodType" where
  "preprocess f schema ctx_issues p input =
     (case f input of
        Inl e \<Rightarrow> Inl e
      | Inr processed \<Rightarrow>
          if ctx_issues \<noteq> [] then Inr (DIRTY input, [])
          else schema ctx_issues p processed)"

datatype UnknownKeys = strict | strip

text \<open>The loop of \<^verbatim>\<open>ZodObject._parse\<close> over the keys of the shape: every field is
  parsed, in declaration order, whatever status the fields before it gave; a field starts
  with the issues that the fields before it left in the list. A pair is the key, the field's
  result and \<^verbatim>\<open>alwaysSet\<close>.\<close>

fun parse_pairs :: "(jsstring \<times> ZodType) list \<Rightarrow> ZodIssue list \<Rightarrow> jsstring list
    \<Rightarrow> (jsstring \<times> jsval) list
    \<Rightarrow> error + ((jsstring \<times> ParseReturn \<times> bool) list \<times> ZodIssue list)" where
  "parse_pairs [] ctx_issues p kvs = Inr ([], [])"
| "parse_pairs ((key, keyValidator) # shape) ctx_issues p kvs =
     (case keyValidator ctx_issues (p @ [key]) (js_get kvs key) of
        Inl e \<Rightarrow> Inl e
      | Inr (r, issues) \<Rightarrow>
          (case parse_pairs shape (ctx_issues @ issues) p kvs of
             Inl e \<Rightarrow> Inl e
           | Inr (pairs, issues') \<Rightarrow> Inr ((key, r, js_in key kvs) # pairs, issues @ issues')))"

text \<open>\<^verbatim>\<open>ParseStatus.mergeObjectSync\<close>: the first aborted field aborts the object; a dirty
  field makes it dirty; a key is set when its value is not \<^verbatim>\<open>undefined\<close> or the key was
  in the input. The flag is "the status is dirty".\<close>

fun mergeObjectSync :: "bool \<Rightarrow> (jsstring \<times> jsval) list \<Rightarrow> (jsstring \<times> ParseReturn \<times> bool) list
    \<Rightarrow> ParseReturn" where
  "mergeObjectSync dirty finalObject [] =
     (if dirty then DIRTY (JObj finalObject) else OK (JObj finalObject))"
| "mergeObjectSync dirty finalObject ((key, INVALID, alwaysSet) # pairs) = INVALID"
| "mergeObjectSync dirty finalObject ((key, DIRTY v, alwaysSet) # pairs) =
     mergeObjectSync True
       (if v \<noteq> JUndefined \<or> alwaysSet then AList.update key v finalObject else finalObject) pairs"
| "mergeObjectSync dirty finalObject ((key, OK v, alwaysSet) # pairs) =
     mergeObjectSync dirty
       (if v \<noteq> JUndefined \<or> alwaysSet then AList.update key v finalObject else finalObject) pairs"

text \<open>The keys of the input that the shape does not declare, in the input's order.\<close>

definition extraKeys :: "(jsstring \<times> ZodType) list \<Rightarrow> (jsstring \<times> jsval) list \<Rightarrow> jsstring list" where
  "extraKeys shape kvs = filter (\<lambda>key. key \<notin> set (map fst shape)) (map fst kvs)"

text \<open>The branch on \<^verbatim>\<open>unknownKeys\<close>: a strict object adds one issue for all the
  unrecognised keys, at its own path, and its status becomes dirty (it does not abort); a
  stripping object does nothing.\<close>

definition unrecognized :: "UnknownKeys \<Rightarrow> (jsstring \<times> ZodType) list \<Rightarrow> (jsstring \<times> jsval) list \<Rightarrow> bool" where
  "unrecognized unknownKeys shape kvs \<longleftrightarrow> unknownKeys = strict \<and> extraKeys shape kvs \<noteq> []"

definition unrecognized_issues :: "UnknownKeys \<Rightarrow> (jsstring \<times> ZodType) list \<Rightarrow> jsstring list
    \<Rightarrow> (jsstring \<times> jsval) list \<Rightarrow> ZodIssue list" where
  "unrecognized_issues unknownKeys shape p kvs =
     (if unrecognized unknownKeys shape kvs
      then [\<lparr>code = unrecognized_keys (extraKeys shape kvs), path = p, message = None\<rparr>]
      else [])"

text \<open>\<^verbatim>\<open>ZodObject._parse\<close>: the fields are parsed first, then the unrecognised keys are
  reported, then the pairs are merged.\<close>

definition ZodObject :: "UnknownKeys \<Rightarrow> (jsstring \<times> ZodType) list \<Rightarrow> ZodType" where
  "ZodObject unknownKeys shape ctx_issues p input =
     (case input of
        JObj kvs \<Rightarrow>
          (case parse_pairs shape ctx_issues p kvs of
             Inl e \<Rightarrow> Inl e
           | Inr (pairs, issues) \<Rightarrow>
               Inr (mergeObjectSync (unrecognized unknownKeys shape kvs) [] pairs,
                    issues @ unrecognized_issues unknownKeys shape p kvs))
      | _ \<Rightarrow> Inr (INVALID, [\<lparr>code = invalid_type (getParsedType input), path = p, message = None\<rparr>]))"

text \<open>\<^verbatim>\<open>.superRefine(f)\<close>, the refinement branch of \<^verbatim>\<open>ZodEffects._parse\<close>: an
  aborted inner result returns at once, so the refinement runs on valid and on dirty values
  only. The refinement is modelled by the issues it adds, with paths relative to the
  context's.\<close>

definition superRefine :: "ZodType \<Rightarrow> (jsval \<Rightarrow> error + ZodIssue list) \<Rightarrow> ZodType" where
  "superRefine schema refinement ctx_issues p input =
     (case schema ctx_issues p input of
        Inl e \<Rightarrow> Inl e
      | Inr (INVALID, issues) \<Rightarrow> Inr (INVALID, issues)
      | Inr (DIRTY v, issues) \<Rightarrow>
          (case refinement v of
             Inl e \<Rightarrow> Inl e
           | Inr added \<Rightarrow> Inr (DIRTY v, issues @ map (\<lambda>i. i\<lparr>path := p @ path i\<rparr>) added))
      | Inr (OK v, issues) \<Rightarrow>
          (case refinement v of
             Inl e \<Rightarrow> Inl e
           | Inr added \<Rightarrow>
               Inr (if added = [] then OK v else DIRTY v,
                    issues @ map (\<lambda>i. i\<lparr>path := p @ path i\<rparr>) added)))"

text \<open>\<^verbatim>\<open>safeParse\<close> with \<^verbatim>\<open>handleResult\<close>: the Validation Result. The parse
  starts at the root path with no issue.\<close>

datatype SafeParseReturn = Success jsval | Failure "ZodIssue list"

definition safeParse :: "ZodType \<Rightarrow> jsval \<Rightarrow> error + SafeParseReturn" where
  "safeParse schema input =
     (case schema [] [] input of
        Inl e \<Rightarrow> Inl e
      | Inr (OK v, issues) \<Rightarrow> Inr (Success v)
      | Inr (_, issues) \<Rightarrow> (if issues = [] then Inl Error else Inr (Failure issues)))"

section \<open>The seller validators\<close>

text \<open>\<^verbatim>\<open>(val: string) => val?.trim()\<close>: the optional chain stops at \<^verbatim>\<open>undefined\<close> and
  \<^verbatim>\<open>null\<close> only; on any other value that is not a string, \<^verbatim>\<open>val.trim\<close> is not a
  function and the call raises a TypeError.\<close>

fun trim_optional_chain :: "jsval \<Rightarrow> error + jsval" where
  "trim_optional_chain JUndefined = Inr JUndefined"
| "trim_optional_chain JNull = Inr JUndefined"
| "trim_optional_chain (JStr s) = Inr (JStr (trim s))"
| "trim_optional_chain _ = Inl TypeError"

text \<open>\<^verbatim>\<open>(val: string) => val.trim()\<close>: every value that is not a string raises.\<close>

fun trim_call :: "jsval \<Rightarrow> error + jsval" where
  "trim_call (JStr s) = Inr (JStr (trim s))"
| "trim_call _ = Inl TypeError"

definition member_shape :: "(jsstring \<Rightarrow> bool) \<Rightarrow> (jsstring \<times> ZodType) list" where
  "member_shape emailRegex =
    [(ascii ''name'', ZodString []),
     (ascii ''email'', ZodString [check_email emailRegex]),
     (ascii ''bio'', ZodOptional (nullish (ZodString []))),
     (ascii ''phone'', ZodOptional (nullish (ZodString []))),
     (ascii ''photo'', ZodOptional (nullish (ZodString [])))]"

definition VendorCreateSeller_shape :: "(jsstring \<Rightarrow> bool) \<Rightarrow> (jsstring \<times> ZodType) list" where
  "VendorCreateSeller_shape emailRegex =
    [(ascii ''registration_type'', ZodEnum [ascii ''individual'', ascii ''business'']),
     (ascii ''name'', preprocess trim_optional_chain (ZodString [check_min 1])),
     (ascii ''description'', ZodOptional (nullish (ZodString []))),
     (ascii ''photo'', ZodOptional (nullish (ZodString []))),
     (ascii ''email'', nullish (ZodString [check_email emailRegex])),
     (ascii ''phone'', ZodOptional (nullish (ZodString []))),
     (ascii ''address_line'', ZodOptional (nullish (ZodString []))),
     (ascii ''city'', ZodOptional (nullish (ZodString []))),
     (ascii ''state'', ZodOptional (nullish (ZodString []))),
     (ascii ''postal_code'', ZodOptional (nullish (ZodString []))),
     (ascii ''country_code'', ZodOptional (nullish (ZodString []))),
     (ascii ''tax_id'', ZodOptional (nullish (ZodString []))),
     (ascii ''company_name'', ZodNullable (ZodOptional (ZodString []))),
     (ascii ''vat_number'', ZodNullable (ZodOptional (ZodString []))),
     (ascii ''tax_office'', ZodNullable (ZodOptional (ZodString []))),
     (ascii ''member'', ZodObject strip (member_shape emailRegex))]"

text \<open>One \<^verbatim>\<open>if (!data.field) ctx.addIssue(...)\<close> of the refinement.\<close>

definition required_for_business :: "jsval \<Rightarrow> string \<Rightarrow> string \<Rightarrow> ZodIssue list" where
  "required_for_business data field msg =
     (if \<not> truthy (js_prop data (ascii field))
      then [\<lparr>code = custom, path = [ascii field], message = Some (ascii msg)\<rparr>]
      else [])"

text \<open>The callback of \<^verbatim>\<open>superRefine\<close>. Reading a property of \<^verbatim>\<open>undefined\<close> or
  \<^verbatim>\<open>null\<close> raises.\<close>

definition business_refinement :: "jsval \<Rightarrow> error + ZodIssue list" where
  "business_refinement data =
     (if data = JUndefined \<or> data = JNull then Inl TypeError
      else if js_prop data (ascii ''registration_type'') = JStr (ascii ''business'')
      then Inr (required_for_business data ''company_name''
                  ''Company name is required for business registration''
              @ required_for_business data ''vat_number''
                  ''VAT number is required for business registration''
              @ required_for_business data ''tax_office''
                  ''Tax office is required for business registration'')
      else Inr [])"

definition VendorCreateSeller :: "(jsstring \<Rightarrow> bool) \<Rightarrow> ZodType" where
  "VendorCreateSeller emailRegex =
     superRefine (ZodObject strict (VendorCreateSeller_shape emailRegex)) business_refinement"

definition VendorUpdateSeller_shape :: "(jsstring \<Rightarrow> bool) \<Rightarrow> (jsstring \<times> ZodType) list" where
  "VendorUpdateSeller_shape emailRegex =
    [(ascii ''registration_type'', ZodOptional (ZodEnum [ascii ''individual'', ascii ''business''])),
     (ascii ''name'', ZodOptional (preprocess trim_call (ZodString [check_min 4]))),
     (ascii ''description'', ZodOptional (ZodString [])),
     (ascii ''photo'', ZodOptional (ZodString [])),
     (ascii ''email'', ZodOptional (ZodString [check_email emailRegex])),
     (ascii ''phone'', ZodOptional (ZodString [])),
     (ascii ''address_line'', ZodOptional (ZodString [])),
     (ascii ''city'', ZodOptional (ZodString [])),
     (ascii ''state'', ZodOptional (ZodString [])),
     (ascii ''postal_code'', ZodOptional (ZodString [])),
     (ascii ''country_code'', ZodOptional (ZodString [])),
     (ascii ''tax_id'', ZodOptional (ZodString [])),
     (ascii ''company_name'', ZodNullable (ZodOptional (ZodString []))),
     (ascii ''vat_number'', ZodNullable (ZodOptional (ZodString []))),
     (ascii ''tax_office'', ZodNullable (ZodOptional (ZodString [])))]"

definition VendorUpdateSeller :: "(jsstring \<Rightarrow> bool) \<Rightarrow> ZodType" where
  "VendorUpdateSeller emailRegex = ZodObject strict (VendorUpdateSeller_shape emailRegex)"

definition VendorUpdateReview :: ZodType where
  "VendorUpdateReview = ZodObject strip [(ascii ''seller_note'', ZodString [check_max 300])]"

text \<open>A stand-in for the library's email test, for the concrete inputs below: an
  \<^verbatim>\<open>@\<close> somewhere after the first code unit.\<close>

definition example_emailRegex :: "jsstring \<Rightarrow> bool" where
  "example_emailRegex s \<longleftrightarrow> 64 \<in> set (tl s)"

section \<open>Notions for the statements and the proofs\<close>

text \<open>What one field of a shape gives on an input object by itself: its schema run on the
  property of that name, at the object's path extended by the name, in a parse that holds no
  issue yet.\<close>

definition field_result :: "jsstring list \<Rightarrow> (jsstring \<times> jsval) list \<Rightarrow> jsstring \<times> ZodType
    \<Rightarrow> error + (ParseReturn \<times> ZodIssue list)" where
  "field_result p kvs kt = snd kt [] (p @ [fst kt]) (js_get kvs (fst kt))"

text \<open>The value a parse result carries.\<close>

fun value_of :: "ParseReturn \<Rightarrow> jsval" where
  "value_of INVALID = JUndefined"
| "value_of (DIRTY v) = v"
| "value_of (OK v) = v"

fun is_dirty :: "ParseReturn \<Rightarrow> bool" where
  "is_dirty (DIRTY v) = True"
| "is_dirty _ = False"

text \<open>The two halves of a field's result when the field did not raise, and the pair that
  \<open>parse_pairs\<close> builds from it.\<close>

definition field_return :: "jsstring list \<Rightarrow> (jsstring \<times> jsval) list \<Rightarrow> jsstring \<times> ZodType
    \<Rightarrow> ParseReturn" where
  "field_return p kvs kt = fst (projr (field_result p kvs kt))"

definition issues_of :: "jsstring list \<Rightarrow> (jsstring \<times> jsval) list \<Rightarrow> jsstring \<times> ZodType
    \<Rightarrow> ZodIssue list" where
  "issues_of p kvs kt = snd (projr (field_result p kvs kt))"

definition pair_of :: "jsstring list \<Rightarrow> (jsstring \<times> jsval) list \<Rightarrow> jsstring \<times> ZodType
    \<Rightarrow> jsstring \<times> ParseReturn \<times> bool" where
  "pair_of p kvs kt = (fst kt, field_return p kvs kt, js_in (fst kt) kvs)"

text \<open>The property that a pair contributes to the merged object: none when its value is
  \<^verbatim>\<open>undefined\<close> and the key was not in the input.\<close>

definition entry :: "jsstring \<times> ParseReturn \<times> bool \<Rightarrow> (jsstring \<times> jsval) list" where
  "entry pr = (if value_of (fst (snd pr)) \<noteq> JUndefined \<or> snd (snd pr)
               then [(fst pr, value_of (fst (snd pr)))] else [])"

definition fields_out :: "jsstring list \<Rightarrow> (jsstring \<times> jsval) list \<Rightarrow> (jsstring \<times> ZodType) list
    \<Rightarrow> (jsstring \<times> jsval) list" where
  "fields_out p kvs shape = concat (map (\<lambda>kt. entry (pair_of p kvs kt)) shape)"

text \<open>No field of the shape raises on the input object: by itself, and whatever issues
  the parse holds.\<close>

definition no_throw :: "jsstring list \<Rightarrow> (jsstring \<times> jsval) list \<Rightarrow> (jsstring \<times> ZodType) list \<Rightarrow> bool" where
  "no_throw p kvs shape \<longleftrightarrow> (\<forall>kt\<in>set shape. \<exists>x. field_result p kvs kt = Inr x)"

definition no_throw_any :: "jsstring list \<Rightarrow> (jsstring \<times> jsval) list \<Rightarrow> (jsstring \<times> ZodType) list \<Rightarrow> bool" where
  "no_throw_any p kvs shape \<longleftrightarrow>
     (\<forall>kt\<in>set shape. \<forall>q. \<exists>x. snd kt q (p @ [fst kt]) (js_get kvs (fst kt)) = Inr x)"

text \<open>A schema ignores the issues that the parse holds when it starts: all the schemas used
  here do, but \<open>preprocess\<close>.\<close>

definition ignores_issues :: "ZodType \<Rightarrow> bool" where
  "ignores_issues t \<longleftrightarrow> (\<forall>q p v. t q p v = t [] p v)"



text \<open>In a run of the fields of a shape that starts with the issues \<open>q\<close>, every field gives
  what it gives by itself: each field ignores the issues, or the fields before it left
  none.\<close>

fun unaffected :: "ZodIssue list \<Rightarrow> jsstring list \<Rightarrow> (jsstring \<times> jsval) list
    \<Rightarrow> (jsstring \<times> ZodType) list \<Rightarrow> bool" where
  "unaffected q p kvs [] = True"
| "unaffected q p kvs (kt # shape) =
     ((ignores_issues (snd kt) \<or> q = []) \<and> unaffected (q @ issues_of p kvs kt) p kvs shape)"

text \<open>What \<open>ZodObject\<close> returns when no field raises and every field gives what it gives
  by itself, written without the loops (lemma \<open>ZodObject_no_throw\<close> proves it equal to the
  code's result).\<close>

definition object_return :: "UnknownKeys \<Rightarrow> (jsstring \<times> ZodType) list \<Rightarrow> jsstring list
    \<Rightarrow> (jsstring \<times> jsval) list \<Rightarrow> ParseReturn" where
  "object_return unknownKeys shape p kvs =
     (if \<exists>kt\<in>set shape. field_return p kvs kt = INVALID then INVALID
      else if unrecognized unknownKeys shape kvs \<or> (\<exists>kt\<in>set shape. is_dirty (field_return p kvs kt))
      then DIRTY (JObj (fields_out p kvs shape))
      else OK (JObj (fields_out p kvs shape)))"

definition object_issues :: "UnknownKeys \<Rightarrow> (jsstring \<times> ZodType) list \<Rightarrow> jsstring list
    \<Rightarrow> (jsstring \<times> jsval) list \<Rightarrow> ZodIssue list" where
  "object_issues unknownKeys shape p kvs =
     concat (map (issues_of p kvs) shape) @ unrecognized_issues unknownKeys shape p kvs"

text \<open>Properties of a schema: it never raises; in a parse that holds no issue yet, a value
  it does not abort on comes back unchanged; in such a parse, a value it returns as valid is
  valid again and is returned as it is.\<close>

definition never_raises :: "ZodType \<Rightarrow> bool" where
  "never_raises t \<longleftrightarrow> (\<forall>q p v. \<exists>x. t q p v = Inr x)"

definition passes_through :: "ZodType \<Rightarrow> bool" where
  "passes_through t \<longleftrightarrow> (\<forall>p v r iss. t [] p v = Inr (r, iss) \<longrightarrow> r \<noteq> INVALID \<longrightarrow> value_of r = v)"

definition stable :: "ZodType \<Rightarrow> bool" where
  "stable t \<longleftrightarrow>
     (\<forall>p v v' iss. t [] p v = Inr (OK v', iss) \<longrightarrow> iss = [] \<and> t [] p v' = Inr (OK v', []))"

text \<open>A declared field satisfies its rule on an input object when its schema, by itself,
  returns the status valid and no issue. A field is not aborted when its schema, by itself,
  returns the status valid or dirty: it neither aborts nor raises.\<close>

definition satisfies_rule :: "jsstring list \<Rightarrow> (jsstring \<times> jsval) list \<Rightarrow> jsstring \<times> ZodType \<Rightarrow> bool" where
  "satisfies_rule p kvs kt \<longleftrightarrow>
     (case field_result p kvs kt of Inr (OK v, iss) \<Rightarrow> iss = [] | _ \<Rightarrow> False)"

definition not_aborted :: "jsstring list \<Rightarrow> (jsstring \<times> jsval) list \<Rightarrow> jsstring \<times> ZodType \<Rightarrow> bool" where
  "not_aborted p kvs kt \<longleftrightarrow>
     (case field_result p kvs kt of Inr (INVALID, iss) \<Rightarrow> False | Inr _ \<Rightarrow> True | Inl e \<Rightarrow> False)"

text \<open>The three issues that the refinement of \<^verbatim>\<open>VendorCreateSeller\<close> can add, with the
  paths and messages of the source.\<close>

definition company_name_issue :: ZodIssue where
  "company_name_issue = \<lparr>code = custom, path = [ascii ''company_name''],
     message = Some (ascii ''Company name is required for business registration'')\<rparr>"

definition vat_number_issue :: ZodIssue where
  "vat_number_issue = \<lparr>code = custom, path = [ascii ''vat_number''],
     message = Some (ascii ''VAT number is required for business registration'')\<rparr>"

definition tax_office_issue :: ZodIssue where
  "tax_office_issue = \<lparr>code = custom, path = [ascii ''tax_office''],
     message = Some (ascii ''Tax office is required for business registration'')\<rparr>"

text \<open>The ten fields that are \<^verbatim>\<open>nullish\<close> in \<^verbatim>\<open>VendorCreateSeller\<close> and only
  \<^verbatim>\<open>optional\<close> in \<^verbatim>\<open>VendorUpdateSeller\<close>.\<close>

definition null_only_on_create :: "jsstring list" where
  "null_only_on_create = map ascii [''description'', ''photo'', ''email'', ''phone'',
     ''address_line'', ''city'', ''state'', ''postal_code'', ''country_code'', ''tax_id'']"

section \<open>Strings\<close>

lemma unat_of_char: "unat (of_char c :: 16 word) = of_char c"
proof -
  have lt: "(of_char c :: nat) < 256"
    by (metis of_char_mod_256 mod_less_divisor zero_less_numeral)
  have "(of_char c :: 16 word) = of_nat (of_char c)"
    by (simp add: of_nat_of_char)
  then have "unat (of_char c :: 16 word) = (of_char c :: nat) mod 2 ^ 16"
    by (simp add: unat_of_nat)
  moreover have "(of_char c :: nat) mod 2 ^ 16 = of_char c"
  proof (rule mod_less)
    have "(256::nat) < 2 ^ 16" by simp
    with lt show "(of_char c :: nat) < 2 ^ 16" by (rule less_trans)
  qed
  ultimately show ?thesis by (simp only:)
qed

lemma inj_of_char_w16: "inj (of_char :: char \<Rightarrow> 16 word)"
  by (rule injI) (metis unat_of_char of_char_eq_iff)

lemma ascii_inj [simp]: "ascii s = ascii t \<longleftrightarrow> s = t"
  unfolding ascii_def by (simp add: inj_map_eq_map [OF inj_of_char_w16])

lemma ascii_Nil [simp]: "ascii s = [] \<longleftrightarrow> s = []"
  by (simp add: ascii_def)

lemma length_ascii [simp]: "length (ascii s) = length s"
  by (simp add: ascii_def)

lemma js_get_Cons: "js_get ((k, v) # kvs) k' = (if k = k' then v else js_get kvs k')"
  by (simp add: js_get_def)

lemma js_get_Nil: "js_get [] k = JUndefined"
  by (simp add: js_get_def)

section \<open>Objects\<close>

lemma parse_pairs_no_throw:
  "no_throw p kvs shape \<Longrightarrow> unaffected q p kvs shape \<Longrightarrow>
   parse_pairs shape q p kvs = Inr (map (pair_of p kvs) shape, concat (map (issues_of p kvs) shape))"
proof (induction shape arbitrary: q)
  case Nil
  then show ?case by simp
next
  case (Cons kt shape)
  obtain k t where kt: "kt = (k, t)" by (cases kt)
  from Cons.prems(1) obtain r iss where r0: "t [] (p @ [k]) (js_get kvs k) = Inr (r, iss)"
    unfolding no_throw_def field_result_def kt by fastforce
  have hd1: "pair_of p kvs (k, t) = (k, r, js_in k kvs)"
    by (simp add: pair_of_def field_return_def field_result_def r0)
  have hd2: "issues_of p kvs (k, t) = iss"
    by (simp add: issues_of_def field_result_def r0)
  from Cons.prems(2) have "ignores_issues t \<or> q = []"
    and un: "unaffected (q @ iss) p kvs shape"
    unfolding kt by (simp_all add: hd2)
  then have r: "t q (p @ [k]) (js_get kvs k) = Inr (r, iss)"
    using r0 unfolding ignores_issues_def by metis
  from Cons.prems(1) have "no_throw p kvs shape" unfolding no_throw_def by simp
  from Cons.IH [OF this un] have ih: "parse_pairs shape (q @ iss) p kvs =
      Inr (map (pair_of p kvs) shape, concat (map (issues_of p kvs) shape))" .
  show ?case
    unfolding kt by (simp add: r ih hd1 hd2)
qed

lemma parse_pairs_Inr:
  "no_throw_any p kvs shape \<Longrightarrow> \<exists>x. parse_pairs shape q p kvs = Inr x"
proof (induction shape arbitrary: q)
  case Nil
  then show ?case by simp
next
  case (Cons kt shape)
  obtain k t where kt: "kt = (k, t)" by (cases kt)
  from Cons.prems obtain r iss where r: "t q (p @ [k]) (js_get kvs k) = Inr (r, iss)"
    unfolding no_throw_any_def kt by fastforce
  from Cons.prems have "no_throw_any p kvs shape" unfolding no_throw_any_def by simp
  from Cons.IH [OF this] obtain x where "parse_pairs shape (q @ iss) p kvs = Inr x" by blast
  then show ?case unfolding kt by (cases x) (simp add: r)
qed

lemma parse_pairs_ignores:
  "\<forall>kt\<in>set shape. ignores_issues (snd kt) \<Longrightarrow> parse_pairs shape q p kvs = parse_pairs shape [] p kvs"
proof (induction shape arbitrary: q)
  case Nil
  then show ?case by simp
next
  case (Cons kt shape)
  obtain k t where kt: "kt = (k, t)" by (cases kt)
  from Cons.prems have t: "t q (p @ [k]) (js_get kvs k) = t [] (p @ [k]) (js_get kvs k)"
    unfolding kt ignores_issues_def by simp
  from Cons.prems have rest: "\<forall>kt\<in>set shape. ignores_issues (snd kt)" by simp
  have "parse_pairs shape q' p kvs = parse_pairs shape [] p kvs" for q'
    using Cons.IH [OF rest] .
  then have "parse_pairs shape (q @ iss) p kvs = parse_pairs shape ([] @ iss) p kvs" for iss
    by metis
  then show ?case unfolding kt by (simp add: t cong: sum.case_cong prod.case_cong)
qed

lemma parse_pairs_field:
  assumes "no_throw_any p kvs shape" and "kt \<in> set shape" and "ignores_issues (snd kt)"
    and "field_result p kvs kt = Inr (r, fiss)"
  shows "\<exists>pairs iss. parse_pairs shape q p kvs = Inr (pairs, iss)
           \<and> (fst kt, r, js_in (fst kt) kvs) \<in> set pairs \<and> set fiss \<subseteq> set iss"
  using assms(1,2)
proof (induction shape arbitrary: q)
  case Nil
  then show ?case by simp
next
  case (Cons a shape)
  obtain k t where a: "a = (k, t)" by (cases a)
  from Cons.prems(1) obtain r' iss' where r': "t q (p @ [k]) (js_get kvs k) = Inr (r', iss')"
    unfolding no_throw_any_def a by fastforce
  from Cons.prems(1) have nt: "no_throw_any p kvs shape" unfolding no_throw_any_def by simp
  from parse_pairs_Inr [OF nt] obtain pairs iss
    where rest: "parse_pairs shape (q @ iss') p kvs = Inr (pairs, iss)" by fastforce
  have whole: "parse_pairs (a # shape) q p kvs = Inr ((k, r', js_in k kvs) # pairs, iss' @ iss)"
    unfolding a by (simp add: r' rest)
  show ?case
  proof (cases "kt = a")
    case True
    from assms(3) have "t q (p @ [k]) (js_get kvs k) = t [] (p @ [k]) (js_get kvs k)"
      unfolding True a ignores_issues_def by simp
    with assms(4) have "t q (p @ [k]) (js_get kvs k) = Inr (r, fiss)"
      unfolding True a field_result_def by simp
    with r' have "r' = r" "iss' = fiss" by simp_all
    then show ?thesis using whole unfolding True a by simp
  next
    case False
    with Cons.prems(2) have "kt \<in> set shape" by simp
    from Cons.IH [OF nt this, of "q @ iss'"] rest
    have "(fst kt, r, js_in (fst kt) kvs) \<in> set pairs \<and> set fiss \<subseteq> set iss" by simp
    then show ?thesis using whole by auto
  qed
qed

lemma parse_pairs_OK:
  assumes "\<forall>kt\<in>set shape. stable (snd kt)"
    and "parse_pairs shape [] p kvs = Inr (pairs, iss)"
    and "\<forall>pr\<in>set pairs. \<exists>v. fst (snd pr) = OK v"
  shows "\<forall>kt\<in>set shape. \<exists>v. field_result p kvs kt = Inr (OK v, [])"
  using assms
proof (induction shape arbitrary: pairs iss)
  case Nil
  then show ?case by simp
next
  case (Cons a shape)
  obtain k t where a: "a = (k, t)" by (cases a)
  from Cons.prems(2) obtain r i1 pairs' i2
    where r: "t [] (p @ [k]) (js_get kvs k) = Inr (r, i1)"
      and rest: "parse_pairs shape ([] @ i1) p kvs = Inr (pairs', i2)"
      and pairs: "pairs = (k, r, js_in k kvs) # pairs'"
    unfolding a by (auto split: sum.splits prod.splits)
  from Cons.prems(3) pairs obtain v where v: "r = OK v" by auto
  from Cons.prems(1) have "stable t" unfolding a by simp
  with r v have i1: "i1 = []" unfolding stable_def by blast
  from Cons.prems(1) have st: "\<forall>kt\<in>set shape. stable (snd kt)" by simp
  from Cons.prems(3) pairs have ok: "\<forall>pr\<in>set pairs'. \<exists>v. fst (snd pr) = OK v" by simp
  from rest have rest': "parse_pairs shape [] p kvs = Inr (pairs', i2)" by (simp add: i1)
  from Cons.IH [OF st rest' ok] r v i1 show ?case
    unfolding a by (simp add: field_result_def)
qed

lemma unaffected_ignores:
  "\<forall>kt\<in>set shape. ignores_issues (snd kt) \<Longrightarrow> unaffected q p kvs shape"
  by (induction shape arbitrary: q) simp_all

lemma unaffected_clean:
  "\<forall>kt\<in>set shape. issues_of p kvs kt = [] \<Longrightarrow> unaffected [] p kvs shape"
  by (induction shape) simp_all

lemma update_fresh: "k \<notin> fst ` set acc \<Longrightarrow> AList.update k v acc = acc @ [(k, v)]"
  by (induction acc) auto

lemma mergeObjectSync_INVALID:
  "\<exists>pr\<in>set pairs. fst (snd pr) = INVALID \<Longrightarrow> mergeObjectSync d acc pairs = INVALID"
proof (induction pairs arbitrary: d acc)
  case Nil
  then show ?case by simp
next
  case (Cons pr pairs)
  obtain k r a where pr: "pr = (k, r, a)" by (cases pr)
  show ?case
  proof (cases r)
    case INVALID
    then show ?thesis unfolding pr by simp
  next
    case (DIRTY v)
    with Cons.prems have "\<exists>pr\<in>set pairs. fst (snd pr) = INVALID" unfolding pr by simp
    then show ?thesis unfolding pr DIRTY by (simp add: Cons.IH)
  next
    case (OK v)
    with Cons.prems have "\<exists>pr\<in>set pairs. fst (snd pr) = INVALID" unfolding pr by simp
    then show ?thesis unfolding pr OK by (simp add: Cons.IH)
  qed
qed

lemma mergeObjectSync_dirty:
  "mergeObjectSync True acc pairs = INVALID \<or> (\<exists>out. mergeObjectSync True acc pairs = DIRTY (JObj out))"
proof (induction pairs arbitrary: acc)
  case Nil
  then show ?case by simp
next
  case (Cons pr pairs)
  obtain k r a where pr: "pr = (k, r, a)" by (cases pr)
  show ?case unfolding pr using Cons.IH by (cases r) simp_all
qed

lemma mergeObjectSync_not_OK:
  "\<exists>pr\<in>set pairs. \<forall>v. fst (snd pr) \<noteq> OK v \<Longrightarrow>
   mergeObjectSync d acc pairs = INVALID \<or> (\<exists>out. mergeObjectSync d acc pairs = DIRTY (JObj out))"
proof (induction pairs arbitrary: d acc)
  case Nil
  then show ?case by simp
next
  case (Cons pr pairs)
  obtain k r a where pr: "pr = (k, r, a)" by (cases pr)
  show ?case
  proof (cases r)
    case INVALID
    then show ?thesis unfolding pr by simp
  next
    case (DIRTY v)
    then show ?thesis unfolding pr using mergeObjectSync_dirty by simp
  next
    case (OK v)
    with Cons.prems have "\<exists>pr\<in>set pairs. \<forall>v. fst (snd pr) \<noteq> OK v" unfolding pr by simp
    from Cons.IH [OF this] show ?thesis unfolding pr OK by simp
  qed
qed

lemma mergeObjectSync_OK_D:
  "mergeObjectSync d acc pairs = OK v \<Longrightarrow> \<not> d \<and> (\<forall>pr\<in>set pairs. \<exists>w. fst (snd pr) = OK w)"
proof (induction pairs arbitrary: d acc)
  case Nil
  then show ?case by (simp split: if_splits)
next
  case (Cons pr pairs)
  obtain k r a where pr: "pr = (k, r, a)" by (cases pr)
  show ?case
  proof (cases r)
    case INVALID
    with Cons.prems show ?thesis unfolding pr by simp
  next
    case (DIRTY w)
    with Cons.prems Cons.IH show ?thesis unfolding pr by fastforce
  next
    case (OK w)
    with Cons.prems Cons.IH show ?thesis unfolding pr by fastforce
  qed
qed

lemma mergeObjectSync_value:
  assumes "\<forall>pr\<in>set pairs. fst (snd pr) \<noteq> INVALID"
    and "distinct (map fst pairs)"
    and "fst ` set pairs \<inter> fst ` set acc = {}"
  shows "mergeObjectSync d acc pairs =
     (if d \<or> (\<exists>pr\<in>set pairs. is_dirty (fst (snd pr)))
      then DIRTY (JObj (acc @ concat (map entry pairs)))
      else OK (JObj (acc @ concat (map entry pairs))))"
  using assms
proof (induction pairs arbitrary: d acc)
  case Nil
  then show ?case by simp
next
  case (Cons pr pairs)
  obtain k r a where pr: "pr = (k, r, a)" by (cases pr)
  from Cons.prems have k_acc: "k \<notin> fst ` set acc" and k_pairs: "k \<notin> fst ` set pairs"
    and rest: "\<forall>pr\<in>set pairs. fst (snd pr) \<noteq> INVALID" "distinct (map fst pairs)"
    and disj: "fst ` set pairs \<inter> fst ` set acc = {}"
    unfolding pr by auto
  define acc' where "acc' = (if value_of r \<noteq> JUndefined \<or> a then AList.update k (value_of r) acc else acc)"
  have acc'_eq: "acc' = acc @ entry pr"
    unfolding acc'_def entry_def pr using k_acc by (simp add: update_fresh)
  have "fst ` set acc' \<subseteq> insert k (fst ` set acc)"
    unfolding acc'_eq entry_def pr by auto
  with k_pairs disj have disj': "fst ` set pairs \<inter> fst ` set acc' = {}" by blast
  note ih = Cons.IH [OF rest disj']
  show ?case
  proof (cases r)
    case INVALID
    with Cons.prems show ?thesis unfolding pr by simp
  next
    case (DIRTY v)
    have "mergeObjectSync d acc (pr # pairs) = mergeObjectSync True acc' pairs"
      unfolding pr DIRTY acc'_def by simp
    also have "\<dots> = DIRTY (JObj (acc' @ concat (map entry pairs)))"
      by (simp add: ih)
    finally show ?thesis unfolding acc'_eq by (simp add: pr DIRTY)
  next
    case (OK v)
    have "mergeObjectSync d acc (pr # pairs) = mergeObjectSync d acc' pairs"
      unfolding pr OK acc'_def by simp
    also note ih
    finally show ?thesis unfolding acc'_eq by (simp add: pr OK)
  qed
qed

lemma ZodObject_no_throw:
  assumes nt: "no_throw p kvs shape" and dist: "distinct (map fst shape)"
    and un: "unaffected q p kvs shape"
  shows "ZodObject unknownKeys shape q p (JObj kvs) =
           Inr (object_return unknownKeys shape p kvs, object_issues unknownKeys shape p kvs)"
proof -
  let ?pairs = "map (pair_of p kvs) shape"
  have keys: "map fst ?pairs = map fst shape"
    by (induction shape) (simp_all add: pair_of_def)
  have m: "mergeObjectSync (unrecognized unknownKeys shape kvs) [] ?pairs = object_return unknownKeys shape p kvs"
  proof (cases "\<exists>kt\<in>set shape. field_return p kvs kt = INVALID")
    case True
    then have "\<exists>pr\<in>set ?pairs. fst (snd pr) = INVALID"
      by (auto simp: pair_of_def)
    then show ?thesis using True by (simp add: mergeObjectSync_INVALID object_return_def)
  next
    case False
    then have a: "\<forall>pr\<in>set ?pairs. fst (snd pr) \<noteq> INVALID"
      by (auto simp: pair_of_def)
    have b: "distinct (map fst ?pairs)" by (simp only: keys dist)
    have c: "fst ` set ?pairs \<inter> fst ` set [] = {}" by simp
    have d: "(\<exists>pr\<in>set ?pairs. is_dirty (fst (snd pr))) \<longleftrightarrow> (\<exists>kt\<in>set shape. is_dirty (field_return p kvs kt))"
      by (auto simp: pair_of_def)
    have e: "concat (map entry ?pairs) = fields_out p kvs shape"
      by (simp add: fields_out_def comp_def)
    show ?thesis
      unfolding mergeObjectSync_value [OF a b c] d e object_return_def using False by simp
  qed
  show ?thesis
    by (simp add: ZodObject_def parse_pairs_no_throw [OF nt un] m object_issues_def)
qed

lemma ZodObject_not_object:
  "\<forall>kvs. input \<noteq> JObj kvs \<Longrightarrow>
   ZodObject unknownKeys shape q p input =
     Inr (INVALID, [\<lparr>code = invalid_type (getParsedType input), path = p, message = None\<rparr>])"
  by (cases input) (simp_all add: ZodObject_def)

lemma fields_out_Cons:
  "fields_out p kvs (kt # shape) = entry (pair_of p kvs kt) @ fields_out p kvs shape"
  by (simp add: fields_out_def)

lemma keys_entry: "fst ` set (entry (pair_of p kvs kt)) \<subseteq> {fst kt}"
  by (auto simp: entry_def pair_of_def)

lemma keys_fields_out: "fst ` set (fields_out p kvs shape) \<subseteq> fst ` set shape"
proof (induction shape)
  case Nil
  then show ?case by (simp add: fields_out_def)
next
  case (Cons kt shape)
  show ?case
    unfolding fields_out_Cons using Cons.IH keys_entry [of p kvs kt]
    by (simp add: image_Un) blast
qed

lemma js_get_fields_out_notin:
  "k \<notin> fst ` set shape \<Longrightarrow> js_get (fields_out p kvs shape) k = JUndefined"
proof -
  assume "k \<notin> fst ` set shape"
  then have "k \<notin> fst ` set (fields_out p kvs shape)"
    using keys_fields_out [of p kvs shape] by blast
  then have "map_of (fields_out p kvs shape) k = None"
    by (simp add: map_of_eq_None_iff)
  then show ?thesis by (simp add: js_get_def)
qed

lemma js_get_fields_out:
  "distinct (map fst shape) \<Longrightarrow> kt \<in> set shape \<Longrightarrow>
   js_get (fields_out p kvs shape) (fst kt) = value_of (field_return p kvs kt)"
proof (induction shape)
  case Nil
  then show ?case by simp
next
  case (Cons a shape)
  show ?case
  proof (cases "kt = a")
    case True
    from Cons.prems have "fst a \<notin> fst ` set shape" by simp
    then have r: "js_get (fields_out p kvs shape) (fst a) = JUndefined"
      by (rule js_get_fields_out_notin)
    show ?thesis
      using r unfolding True fields_out_Cons
      by (auto simp: entry_def pair_of_def js_get_def)
  next
    case False
    with Cons.prems have kt: "kt \<in> set shape" and d: "distinct (map fst shape)" by auto
    from Cons.prems kt have ne: "fst a \<noteq> fst kt" by force
    have "js_get (fields_out p kvs (a # shape)) (fst kt) = js_get (fields_out p kvs shape) (fst kt)"
      unfolding fields_out_Cons using ne
      by (auto simp: entry_def pair_of_def js_get_def)
    then show ?thesis using Cons.IH [OF d kt] by simp
  qed
qed

lemma js_in_fields_out:
  "distinct (map fst shape) \<Longrightarrow> kt \<in> set shape \<Longrightarrow>
   js_in (fst kt) (fields_out p kvs shape) \<longleftrightarrow>
     value_of (field_return p kvs kt) \<noteq> JUndefined \<or> js_in (fst kt) kvs"
proof (induction shape)
  case Nil
  then show ?case by simp
next
  case (Cons a shape)
  show ?case
  proof (cases "kt = a")
    case True
    from Cons.prems have "fst a \<notin> fst ` set shape" by simp
    then have "fst a \<notin> fst ` set (fields_out p kvs shape)"
      using keys_fields_out [of p kvs shape] by blast
    then show ?thesis
      unfolding True fields_out_Cons
      by (auto simp: entry_def pair_of_def js_in_def)
  next
    case False
    with Cons.prems have kt: "kt \<in> set shape" and d: "distinct (map fst shape)" by auto
    from Cons.prems kt have ne: "fst a \<noteq> fst kt" by force
    have "js_in (fst kt) (fields_out p kvs (a # shape)) = js_in (fst kt) (fields_out p kvs shape)"
      unfolding fields_out_Cons using ne
      by (auto simp: entry_def pair_of_def js_in_def)
    then show ?thesis using Cons.IH [OF d kt] by simp
  qed
qed

lemma extraKeys_fields_out: "extraKeys shape (fields_out p kvs shape) = []"
  using keys_fields_out [of p kvs shape]
  by (auto simp: extraKeys_def filter_empty_conv)

lemma trim_Nil [simp]: "trim [] = []"
  by (simp add: trim_def)


lemma dropWhile_stable: "dropWhile P xs = xs \<longleftrightarrow> xs = [] \<or> \<not> P (hd xs)"
  by (cases xs) (auto simp: dropWhile_eq_Cons_conv)

lemma trim_idem: "trim (trim s) = trim s"
proof -
  define t where "t = dropWhile isWhiteSpace s"
  define u where "u = dropWhile isWhiteSpace (rev t)"
  have tu: "trim s = rev u" by (simp add: trim_def t_def u_def)
  have t_hd: "t = [] \<or> \<not> isWhiteSpace (hd t)"
    unfolding t_def by (metis hd_dropWhile)
  have u_hd: "u = [] \<or> \<not> isWhiteSpace (hd u)"
    unfolding u_def by (metis hd_dropWhile)
  have strip_front: "dropWhile isWhiteSpace (rev u) = rev u"
  proof (cases "u = []")
    case True
    then show ?thesis by simp
  next
    case False
    obtain ws where ws: "rev t = ws @ u"
      unfolding u_def by (metis takeWhile_dropWhile_id)
    then have t: "t = rev u @ rev ws" by (metis rev_append rev_rev_ident)
    from False have ne: "rev u \<noteq> []" by simp
    with t have "hd (rev u) = hd t" by (simp del: hd_rev)
    moreover from False t have "t \<noteq> []" by simp
    ultimately have "\<not> isWhiteSpace (hd (rev u))" using t_hd by simp
    then show ?thesis using ne by (simp add: dropWhile_stable)
  qed
  have strip_back: "dropWhile isWhiteSpace u = u"
    using u_hd by (simp add: dropWhile_stable)
  show ?thesis
    unfolding tu by (simp add: trim_def strip_front strip_back)
qed

lemma never_raises_ZodString: "never_raises (ZodString cs)"
  by (auto simp: never_raises_def ZodString_def Let_def split: jsval.splits)

lemma never_raises_ZodEnum: "never_raises (ZodEnum vs)"
  by (auto simp: never_raises_def ZodEnum_def split: jsval.splits)

lemma never_raises_ZodOptional: "never_raises t \<Longrightarrow> never_raises (ZodOptional t)"
  by (auto simp: never_raises_def ZodOptional_def)

lemma never_raises_ZodNullable: "never_raises t \<Longrightarrow> never_raises (ZodNullable t)"
  by (auto simp: never_raises_def ZodNullable_def)



lemma ignores_issues_ZodString: "ignores_issues (ZodString cs)"
  by (simp add: ignores_issues_def ZodString_def)

lemma ignores_issues_ZodEnum: "ignores_issues (ZodEnum vs)"
  by (simp add: ignores_issues_def ZodEnum_def)

lemma ignores_issues_ZodOptional: "ignores_issues t \<Longrightarrow> ignores_issues (ZodOptional t)"
  unfolding ignores_issues_def ZodOptional_def by metis

lemma ignores_issues_ZodNullable: "ignores_issues t \<Longrightarrow> ignores_issues (ZodNullable t)"
  unfolding ignores_issues_def ZodNullable_def by metis

lemma ignores_issues_nullish: "ignores_issues t \<Longrightarrow> ignores_issues (nullish t)"
  by (simp add: nullish_def ignores_issues_ZodOptional ignores_issues_ZodNullable)

lemma ignores_issues_ZodObject:
  assumes "\<forall>kt\<in>set shape. ignores_issues (snd kt)"
  shows "ignores_issues (ZodObject unknownKeys shape)"
  unfolding ignores_issues_def
proof (intro allI)
  fix q p v
  have "parse_pairs shape q p kvs = parse_pairs shape [] p kvs" for kvs
    by (rule parse_pairs_ignores [OF assms])
  then show "ZodObject unknownKeys shape q p v = ZodObject unknownKeys shape [] p v"
    by (cases v) (simp_all add: ZodObject_def)
qed


lemma passes_through_ZodString: "passes_through (ZodString cs)"
  by (auto simp: passes_through_def ZodString_def Let_def split: jsval.splits if_splits)

lemma passes_through_ZodEnum: "passes_through (ZodEnum vs)"
  by (auto simp: passes_through_def ZodEnum_def split: jsval.splits if_splits)

lemma passes_through_ZodOptional: "passes_through t \<Longrightarrow> passes_through (ZodOptional t)"
  by (auto simp: passes_through_def ZodOptional_def split: if_splits)

lemma passes_through_ZodNullable: "passes_through t \<Longrightarrow> passes_through (ZodNullable t)"
  by (auto simp: passes_through_def ZodNullable_def split: if_splits)

lemma passes_through_nullish: "passes_through t \<Longrightarrow> passes_through (nullish t)"
  by (simp add: nullish_def passes_through_ZodOptional passes_through_ZodNullable)

lemma stable_ZodString: "stable (ZodString cs)"
  by (auto simp: stable_def ZodString_def Let_def split: jsval.splits if_splits)

lemma stable_ZodEnum: "stable (ZodEnum vs)"
  by (auto simp: stable_def ZodEnum_def split: jsval.splits if_splits)

lemma stable_ZodOptional: "stable t \<Longrightarrow> stable (ZodOptional t)"
  unfolding stable_def ZodOptional_def by (auto split: if_splits)

lemma stable_ZodNullable: "stable t \<Longrightarrow> stable (ZodNullable t)"
  unfolding stable_def ZodNullable_def by (auto split: if_splits)

lemma stable_nullish: "stable t \<Longrightarrow> stable (nullish t)"
  by (simp add: nullish_def stable_ZodOptional stable_ZodNullable)

lemma stable_trim_optional_chain:
  "stable (preprocess trim_optional_chain (ZodString [check_min n]))"
  unfolding stable_def
proof (intro allI impI)
  fix p v v' iss
  assume a: "preprocess trim_optional_chain (ZodString [check_min n]) [] p v = Inr (OK v', iss)"
  show "iss = [] \<and> preprocess trim_optional_chain (ZodString [check_min n]) [] p v' = Inr (OK v', [])"
  proof (cases v)
    case (JStr s)
    with a have "v' = JStr (trim s)" "iss = []" "\<not> length (trim s) < n"
      by (auto simp: preprocess_def ZodString_def Let_def split: if_splits)
    then show ?thesis
      by (simp add: preprocess_def ZodString_def trim_idem)
  qed (use a in \<open>auto simp: preprocess_def ZodString_def\<close>)
qed

lemma stable_superRefine: "stable t \<Longrightarrow> stable (superRefine t f)"
  unfolding stable_def
proof (intro allI impI)
  fix p v v' iss
  assume st: "\<forall>p v v' iss. t [] p v = Inr (OK v', iss) \<longrightarrow> iss = [] \<and> t [] p v' = Inr (OK v', [])"
    and a: "superRefine t f [] p v = Inr (OK v', iss)"
  from a obtain iss0 where t: "t [] p v = Inr (OK v', iss0)" and f: "f v' = Inr []"
    and iss: "iss = iss0"
    by (auto simp: superRefine_def split: sum.splits prod.splits ParseReturn.splits if_splits)
  from st t have "iss0 = []" "t [] p v' = Inr (OK v', [])" by blast+
  then show "iss = [] \<and> superRefine t f [] p v' = Inr (OK v', [])"
    using f iss by (simp add: superRefine_def)
qed

lemma field_result_return:
  "field_result p kvs kt = Inr (r, iss) \<Longrightarrow> field_return p kvs kt = r \<and> issues_of p kvs kt = iss"
  by (simp add: field_return_def issues_of_def)

lemma ZodObject_OK_D:
  assumes dist: "distinct (map fst shape)" and st: "\<forall>kt\<in>set shape. stable (snd kt)"
    and a: "ZodObject unknownKeys shape [] p input = Inr (OK d, iss)"
  shows "\<exists>kvs. input = JObj kvs \<and> d = JObj (fields_out p kvs shape) \<and> iss = []
           \<and> \<not> unrecognized unknownKeys shape kvs
           \<and> (\<forall>kt\<in>set shape. \<exists>v. field_result p kvs kt = Inr (OK v, []))"
proof -
  have "\<exists>kvs. input = JObj kvs"
  proof (rule ccontr)
    assume "\<nexists>kvs. input = JObj kvs"
    then have "ZodObject unknownKeys shape [] p input =
        Inr (INVALID, [\<lparr>code = invalid_type (getParsedType input), path = p, message = None\<rparr>])"
      by (simp add: ZodObject_not_object)
    with a show False by simp
  qed
  then obtain kvs where v: "input = JObj kvs" by blast
  from a obtain pairs iss0 where pp: "parse_pairs shape [] p kvs = Inr (pairs, iss0)"
    and m: "mergeObjectSync (unrecognized unknownKeys shape kvs) [] pairs = OK d"
    unfolding v ZodObject_def by (auto split: sum.splits prod.splits)
  from mergeObjectSync_OK_D [OF m] have allok: "\<forall>pr\<in>set pairs. \<exists>w. fst (snd pr) = OK w"
    and nounrec: "\<not> unrecognized unknownKeys shape kvs" by simp_all
  from parse_pairs_OK [OF st pp allok]
  have ok: "\<forall>kt\<in>set shape. \<exists>v. field_result p kvs kt = Inr (OK v, [])" .
  then have nt: "no_throw p kvs shape" unfolding no_throw_def by blast
  have clean: "\<forall>kt\<in>set shape. issues_of p kvs kt = []"
    using ok field_result_return by fastforce
  have ret: "\<forall>kt\<in>set shape. \<exists>v. field_return p kvs kt = OK v"
    using ok field_result_return by fastforce
  from a have "object_return unknownKeys shape p kvs = OK d"
    and i: "iss = object_issues unknownKeys shape p kvs"
    unfolding v ZodObject_no_throw [OF nt dist unaffected_clean [OF clean]] by simp_all
  then have d: "d = JObj (fields_out p kvs shape)"
    by (auto simp: object_return_def split: if_splits)
  have "concat (map (issues_of p kvs) shape) = []" using clean by simp
  then have "iss = []"
    unfolding i object_issues_def unrecognized_issues_def using nounrec by simp
  with v d nounrec ok show ?thesis by blast
qed

lemma stable_ZodObject:
  assumes dist: "distinct (map fst shape)" and st: "\<forall>kt\<in>set shape. stable (snd kt)"
  shows "stable (ZodObject unknownKeys shape)"
  unfolding stable_def
proof (intro allI impI)
  fix p v v' iss
  assume a: "ZodObject unknownKeys shape [] p v = Inr (OK v', iss)"
  from ZodObject_OK_D [OF dist st a] obtain kvs where v: "v = JObj kvs"
    and v'0: "v' = JObj (fields_out p kvs shape)" and iss_nil: "iss = []"
    and nounrec: "\<not> unrecognized unknownKeys shape kvs"
    and ok0: "\<forall>kt\<in>set shape. \<exists>w. field_result p kvs kt = Inr (OK w, [])" by blast
  define out where "out = fields_out p kvs shape"
  have v': "v' = JObj out" using v'0 by (simp only: out_def)
  have noinv: "\<forall>kt\<in>set shape. field_return p kvs kt \<noteq> INVALID"
    and nodirty: "\<forall>kt\<in>set shape. \<not> is_dirty (field_return p kvs kt)"
    using ok0 field_result_return by fastforce+
  have st': "snd kt [] (p @ [fst kt]) (value_of (field_return p kvs kt)) =
      Inr (OK (value_of (field_return p kvs kt)), [])"
    if "kt \<in> set shape" for kt
  proof -
    from ok0 that obtain w where w: "field_result p kvs kt = Inr (OK w, [])" by blast
    then have fr: "field_return p kvs kt = OK w" by (simp add: field_return_def)
    from st that have "stable (snd kt)" by blast
    moreover from w have "snd kt [] (p @ [fst kt]) (js_get kvs (fst kt)) = Inr (OK w, [])"
      by (simp add: field_result_def)
    ultimately have "snd kt [] (p @ [fst kt]) w = Inr (OK w, [])"
      unfolding stable_def by blast
    then show ?thesis by (simp add: fr)
  qed
  have get: "js_get out (fst kt) = value_of (field_return p kvs kt)" if "kt \<in> set shape" for kt
    unfolding out_def using js_get_fields_out [OF dist that] .
  have fr: "field_result p out kt = Inr (OK (value_of (field_return p kvs kt)), [])"
    if "kt \<in> set shape" for kt
  proof -
    have "field_result p out kt = snd kt [] (p @ [fst kt]) (js_get out (fst kt))"
      by (simp only: field_result_def)
    also have "\<dots> = snd kt [] (p @ [fst kt]) (value_of (field_return p kvs kt))"
      by (simp only: get [OF that])
    also have "\<dots> = Inr (OK (value_of (field_return p kvs kt)), [])"
      by (rule st' [OF that])
    finally show ?thesis .
  qed
  have nt2: "no_throw p out shape"
    unfolding no_throw_def using fr by blast
  have ret_eq: "field_return p out kt = field_return p kvs kt" if "kt \<in> set shape" for kt
  proof -
    have a: "field_return p out kt = OK (value_of (field_return p kvs kt))"
      by (simp only: field_return_def fr [OF that] sum.sel fst_conv)
    have b: "field_return p kvs kt = OK (value_of (field_return p kvs kt))"
      using noinv nodirty that by (cases "field_return p kvs kt") auto
    show ?thesis by (rule trans [OF a b [symmetric]])
  qed
  have iss2: "issues_of p out kt = []" if "kt \<in> set shape" for kt
    by (simp only: issues_of_def fr [OF that] sum.sel snd_conv)
  have ent: "entry (pair_of p out kt) = entry (pair_of p kvs kt)" if "kt \<in> set shape" for kt
  proof -
    have jin: "js_in (fst kt) out \<longleftrightarrow>
        value_of (field_return p kvs kt) \<noteq> JUndefined \<or> js_in (fst kt) kvs"
      unfolding out_def by (rule js_in_fields_out [OF dist that])
    show ?thesis
      unfolding entry_def pair_of_def by (auto simp: ret_eq [OF that] jin)
  qed
  have "map (\<lambda>kt. entry (pair_of p out kt)) shape = map (\<lambda>kt. entry (pair_of p kvs kt)) shape"
    by (rule map_cong [OF refl]) (rule ent)
  then have "fields_out p out shape = fields_out p kvs shape"
    by (simp only: fields_out_def)
  then have out2: "fields_out p out shape = out"
    by (simp only: out_def)
  have unrec2: "\<not> unrecognized unknownKeys shape out"
    unfolding out_def by (simp add: unrecognized_def extraKeys_fields_out)
  have r2: "object_return unknownKeys shape p out = OK (JObj out)"
    unfolding object_return_def using noinv nodirty unrec2 out2 by (simp add: ret_eq)
  have clean2: "\<forall>kt\<in>set shape. issues_of p out kt = []" using iss2 by blast
  then have "concat (map (issues_of p out) shape) = []" by simp
  then have i2: "object_issues unknownKeys shape p out = []"
    unfolding object_issues_def unrecognized_issues_def using unrec2 by simp
  show "iss = [] \<and> ZodObject unknownKeys shape [] p v' = Inr (OK v', [])"
    unfolding v' using iss_nil
      ZodObject_no_throw [OF nt2 dist unaffected_clean [OF clean2], of unknownKeys] r2 i2
    by simp
qed

section \<open>The shapes\<close>

lemma distinct_member: "distinct (map fst (member_shape er))"
  by (simp add: member_shape_def)

lemma distinct_create: "distinct (map fst (VendorCreateSeller_shape er))"
  by (simp add: VendorCreateSeller_shape_def)




lemma never_raises_update:
  "kt \<in> set (VendorUpdateSeller_shape er) \<Longrightarrow> fst kt \<noteq> ascii ''name'' \<Longrightarrow> never_raises (snd kt)"
  by (auto simp: VendorUpdateSeller_shape_def
      intro!: never_raises_ZodString never_raises_ZodEnum never_raises_ZodOptional never_raises_ZodNullable)

lemma ignores_issues_member: "ignores_issues (ZodObject strip (member_shape er))"
  by (rule ignores_issues_ZodObject)
    (auto simp: member_shape_def
      intro!: ignores_issues_ZodString ignores_issues_ZodOptional ignores_issues_nullish)

lemma ignores_issues_create:
  "kt \<in> set (VendorCreateSeller_shape er) \<Longrightarrow> fst kt \<noteq> ascii ''name'' \<Longrightarrow> ignores_issues (snd kt)"
  by (auto simp: VendorCreateSeller_shape_def
      intro!: ignores_issues_ZodString ignores_issues_ZodEnum ignores_issues_ZodOptional
        ignores_issues_ZodNullable ignores_issues_nullish ignores_issues_member)

lemma ignores_issues_update:
  "kt \<in> set (VendorUpdateSeller_shape er) \<Longrightarrow> fst kt \<noteq> ascii ''name'' \<Longrightarrow> ignores_issues (snd kt)"
  by (auto simp: VendorUpdateSeller_shape_def
      intro!: ignores_issues_ZodString ignores_issues_ZodEnum ignores_issues_ZodOptional
        ignores_issues_ZodNullable)

text \<open>In both seller shapes \<^verbatim>\<open>name\<close> is the only field with a \<open>preprocess\<close>, and
  \<^verbatim>\<open>registration_type\<close> is the only field before it: when \<^verbatim>\<open>registration_type\<close> leaves
  no issue, every field gives what it gives by itself.\<close>

lemma unaffected_tail:
  assumes "\<forall>kt\<in>set shape. ignores_issues (snd kt)" and "ignores_issues (snd a)"
    and "issues_of p kvs a = []"
  shows "unaffected [] p kvs (a # b # shape)"
  using assms by (simp add: unaffected_ignores)

lemma unaffected_create:
  assumes "js_get kvs (ascii ''registration_type'') \<in> {JStr (ascii ''individual''), JStr (ascii ''business'')}"
  shows "unaffected [] [] kvs (VendorCreateSeller_shape er)"
proof -
  let ?reg = "(ascii ''registration_type'', ZodEnum [ascii ''individual'', ascii ''business''])"
  obtain b rest where sh: "VendorCreateSeller_shape er = ?reg # b # rest"
    and b: "fst b = ascii ''name''"
    by (simp add: VendorCreateSeller_shape_def)
  have "\<forall>kt\<in>set rest. fst kt \<noteq> ascii ''name''"
    using distinct_create [of er] b unfolding sh by (fastforce simp: image_iff)
  moreover have "\<forall>kt\<in>set rest. kt \<in> set (VendorCreateSeller_shape er)"
    unfolding sh by simp
  ultimately have ign: "\<forall>kt\<in>set rest. ignores_issues (snd kt)"
    using ignores_issues_create by blast
  have i: "issues_of [] kvs ?reg = []"
    using assms by (auto simp: issues_of_def field_result_def ZodEnum_def)
  show ?thesis
    unfolding sh by (rule unaffected_tail [OF ign _ i]) (simp add: ignores_issues_ZodEnum)
qed


lemma passes_through_create:
  "kt \<in> set (VendorCreateSeller_shape er) \<Longrightarrow> fst kt \<noteq> ascii ''name'' \<Longrightarrow>
   fst kt \<noteq> ascii ''member'' \<Longrightarrow> passes_through (snd kt)"
  by (auto simp: VendorCreateSeller_shape_def
      intro!: passes_through_ZodString passes_through_ZodEnum passes_through_ZodOptional
        passes_through_ZodNullable passes_through_nullish)

lemma stable_member: "stable (ZodObject strip (member_shape er))"
  by (rule stable_ZodObject [OF distinct_member])
    (auto simp: member_shape_def intro!: stable_ZodString stable_ZodOptional stable_nullish)

lemma stable_create_fields: "\<forall>kt\<in>set (VendorCreateSeller_shape er). stable (snd kt)"
  by (auto simp: VendorCreateSeller_shape_def
      intro!: stable_ZodString stable_ZodEnum stable_ZodOptional stable_ZodNullable stable_nullish
        stable_member stable_trim_optional_chain)

lemma stable_VendorCreateSeller: "stable (VendorCreateSeller er)"
  unfolding VendorCreateSeller_def
  by (intro stable_superRefine stable_ZodObject distinct_create stable_create_fields)

section \<open>safeParse\<close>

lemma safeParse_superRefine:
  assumes "schema [] [] input = Inr (r, iss)"
  shows "safeParse (superRefine schema f) input =
    (case r of
       INVALID \<Rightarrow> (if iss = [] then Inl Error else Inr (Failure iss))
     | DIRTY v \<Rightarrow> (case f v of Inl e \<Rightarrow> Inl e
                  | Inr added \<Rightarrow> if iss @ added = [] then Inl Error else Inr (Failure (iss @ added)))
     | OK v \<Rightarrow> (case f v of Inl e \<Rightarrow> Inl e
               | Inr added \<Rightarrow> if added = [] then Inr (Success v) else Inr (Failure (iss @ added))))"
  using assms
  by (auto simp: safeParse_def superRefine_def split: ParseReturn.splits sum.splits)

lemma business_refinement_JObj:
  "business_refinement (JObj out) =
     Inr (if js_get out (ascii ''registration_type'') = JStr (ascii ''business'')
          then required_for_business (JObj out) ''company_name''
                  ''Company name is required for business registration''
              @ required_for_business (JObj out) ''vat_number''
                  ''VAT number is required for business registration''
              @ required_for_business (JObj out) ''tax_office''
                  ''Tax office is required for business registration''
          else [])"
  by (simp add: business_refinement_def)

lemma satisfies_ruleD:
  "satisfies_rule p kvs kt \<Longrightarrow> \<exists>v. field_result p kvs kt = Inr (OK v, [])"
  by (auto simp: satisfies_rule_def split: sum.splits prod.splits ParseReturn.splits)

lemma all_satisfy_object:
  assumes dist: "distinct (map fst shape)"
    and sat: "\<forall>kt\<in>set shape. satisfies_rule p kvs kt"
  shows "ZodObject unknownKeys shape [] p (JObj kvs) =
     Inr (if unrecognized unknownKeys shape kvs
          then DIRTY (JObj (fields_out p kvs shape))
          else OK (JObj (fields_out p kvs shape)),
          unrecognized_issues unknownKeys shape p kvs)"
proof -
  have ok: "\<exists>v. field_return p kvs kt = OK v \<and> issues_of p kvs kt = []" if "kt \<in> set shape" for kt
    using sat that satisfies_ruleD field_result_return by blast
  have nt: "no_throw p kvs shape"
    unfolding no_throw_def using sat satisfies_ruleD by blast
  have a: "\<not> (\<exists>kt\<in>set shape. field_return p kvs kt = INVALID)"
    using ok by fastforce
  have b: "\<not> (\<exists>kt\<in>set shape. is_dirty (field_return p kvs kt))"
    using ok by fastforce
  have c: "concat (map (issues_of p kvs) shape) = []"
    using ok by simp
  have un: "unaffected [] p kvs shape"
    by (rule unaffected_clean) (use ok in blast)
  show ?thesis
    unfolding ZodObject_no_throw [OF nt dist un] object_return_def object_issues_def
    using a b c by simp
qed

lemma js_get_fields_out_passes:
  assumes dist: "distinct (map fst shape)" and kt: "kt \<in> set shape"
    and pt: "passes_through (snd kt)"
    and r: "field_result p kvs kt = Inr (r, iss)" and ni: "r \<noteq> INVALID"
  shows "js_get (fields_out p kvs shape) (fst kt) = js_get kvs (fst kt)"
proof -
  from r have "snd kt [] (p @ [fst kt]) (js_get kvs (fst kt)) = Inr (r, iss)"
    by (simp add: field_result_def)
  with pt ni have "value_of r = js_get kvs (fst kt)"
    unfolding passes_through_def by blast
  moreover from r have "field_return p kvs kt = r"
    by (simp add: field_return_def)
  ultimately show ?thesis
    using js_get_fields_out [OF dist kt, of p kvs] by simp
qed

lemma required_for_business_cong:
  "js_get out (ascii field) = js_get kvs (ascii field) \<Longrightarrow>
   required_for_business (JObj out) field msg = required_for_business (JObj kvs) field msg"
  by (simp add: required_for_business_def)

lemma create_all_satisfy:
  assumes sat: "\<forall>kt\<in>set (VendorCreateSeller_shape er). satisfies_rule [] kvs kt"
  shows "safeParse (VendorCreateSeller er) (JObj kvs) =
    (let added =
       (if js_get kvs (ascii ''registration_type'') = JStr (ascii ''business'')
        then required_for_business (JObj kvs) ''company_name''
                ''Company name is required for business registration''
           @ required_for_business (JObj kvs) ''vat_number''
                ''VAT number is required for business registration''
           @ required_for_business (JObj kvs) ''tax_office''
                ''Tax office is required for business registration''
        else []);
       issues = unrecognized_issues strict (VendorCreateSeller_shape er) [] kvs @ added
     in if issues = []
        then Inr (Success (JObj (fields_out [] kvs (VendorCreateSeller_shape er))))
        else Inr (Failure issues))"
proof -
  let ?shape = "VendorCreateSeller_shape er"
  let ?out = "fields_out [] kvs ?shape"
  have same: "js_get ?out k = js_get kvs k"
    if "k \<in> fst ` set ?shape" "k \<noteq> ascii ''name''" "k \<noteq> ascii ''member''" for k
  proof -
    from that obtain kt where kt: "kt \<in> set ?shape" and k: "k = fst kt" by auto
    from sat kt obtain v where v: "field_result [] kvs kt = Inr (OK v, [])"
      using satisfies_ruleD by blast
    have "passes_through (snd kt)"
      using passes_through_create [OF kt] that k by simp
    then show ?thesis
      unfolding k using js_get_fields_out_passes [OF distinct_create kt _ v] by simp
  qed
  have g1: "js_get ?out (ascii ''registration_type'') = js_get kvs (ascii ''registration_type'')"
    by (rule same) (simp_all add: VendorCreateSeller_shape_def)
  have g2: "js_get ?out (ascii ''company_name'') = js_get kvs (ascii ''company_name'')"
    by (rule same) (simp_all add: VendorCreateSeller_shape_def)
  have g3: "js_get ?out (ascii ''vat_number'') = js_get kvs (ascii ''vat_number'')"
    by (rule same) (simp_all add: VendorCreateSeller_shape_def)
  have g4: "js_get ?out (ascii ''tax_office'') = js_get kvs (ascii ''tax_office'')"
    by (rule same) (simp_all add: VendorCreateSeller_shape_def)
  note obj = all_satisfy_object [OF distinct_create sat, of strict]
  have u: "unrecognized_issues strict ?shape [] kvs = [] \<longleftrightarrow> \<not> unrecognized strict ?shape kvs"
    by (simp add: unrecognized_issues_def)
  show ?thesis
    unfolding VendorCreateSeller_def
      safeParse_superRefine [where schema = "ZodObject strict ?shape" and input = "JObj kvs", OF obj]
    by (simp add: business_refinement_JObj g1 u Let_def
        required_for_business_cong [OF g2] required_for_business_cong [OF g3]
        required_for_business_cong [OF g4])
qed

section \<open>Evaluation on concrete inputs\<close>

lemmas zod_eval =
  safeParse_def VendorCreateSeller_def VendorUpdateSeller_def VendorUpdateReview_def
  superRefine_def ZodObject_def
  VendorCreateSeller_shape_def VendorUpdateSeller_shape_def member_shape_def
  ZodEnum_def ZodString_def ZodOptional_def ZodNullable_def nullish_def preprocess_def
  js_get_Cons js_get_Nil js_in_def unrecognized_def unrecognized_issues_def extraKeys_def
  business_refinement_def required_for_business_def
  satisfies_rule_def not_aborted_def field_result_def
  company_name_issue_def vat_number_issue_def tax_office_issue_def

lemma example_email_ok: "example_emailRegex (ascii ''a@b.co'')"
  by (simp add: example_emailRegex_def ascii_def)

lemma example_email_bad: "\<not> example_emailRegex (ascii ''not-an-email'')"
  by (simp add: example_emailRegex_def ascii_def)

lemma trim_Acme: "trim (ascii ''Acme'') = ascii ''Acme''"
  by (simp add: trim_def ascii_def isWhiteSpace_def)

lemma trim_Acme_padded: "trim (ascii '' Acme  '') = ascii ''Acme''"
  by (simp add: trim_def ascii_def isWhiteSpace_def)


lemma trim_x: "trim (ascii '' x '') \<noteq> ascii '' x ''"
  by (simp add: trim_def ascii_def isWhiteSpace_def)

section \<open>The business rule\<close>

lemma create_dependent_rule:
  "kt \<in> set (VendorCreateSeller_shape er) \<Longrightarrow>
   fst kt \<in> {ascii ''company_name'', ascii ''vat_number'', ascii ''tax_office''} \<Longrightarrow>
   snd kt = ZodNullable (ZodOptional (ZodString []))"
  by (auto simp: VendorCreateSeller_shape_def)

lemma js_get_absent: "\<not> js_in k kvs \<Longrightarrow> js_get kvs k = JUndefined"
  by (simp add: js_in_def js_get_def map_of_eq_None_iff [THEN iffD2])

lemma dependent_not_provided:
  "v \<in> {JUndefined, JNull, JStr []} \<Longrightarrow>
   ZodNullable (ZodOptional (ZodString [])) q p v = Inr (OK v, [])"
  by (auto simp: ZodNullable_def ZodOptional_def ZodString_def)

lemma not_abortedD:
  "not_aborted p kvs kt \<Longrightarrow> \<exists>r iss. field_result p kvs kt = Inr (r, iss) \<and> r \<noteq> INVALID"
  by (auto simp: not_aborted_def split: sum.splits prod.splits ParseReturn.splits)

lemma not_aborted_object:
  assumes dist: "distinct (map fst shape)"
    and na: "\<forall>kt\<in>set shape. not_aborted p kvs kt"
    and un: "unaffected q p kvs shape"
  shows "\<exists>r. ZodObject unknownKeys shape q p (JObj kvs) = Inr (r, object_issues unknownKeys shape p kvs)
           \<and> (r = DIRTY (JObj (fields_out p kvs shape)) \<or> r = OK (JObj (fields_out p kvs shape)))"
proof -
  have nt: "no_throw p kvs shape"
    unfolding no_throw_def using na not_abortedD by blast
  have "\<not> (\<exists>kt\<in>set shape. field_return p kvs kt = INVALID)"
    using na not_abortedD field_result_return by blast
  then show ?thesis
    unfolding ZodObject_no_throw [OF nt dist un] object_return_def by simp
qed

lemma issues_of_object_issues:
  "kt \<in> set shape \<Longrightarrow> i \<in> set (issues_of p kvs kt) \<Longrightarrow> i \<in> set (object_issues unknownKeys shape p kvs)"
  by (auto simp: object_issues_def)

lemma superRefine_OK_D:
  "superRefine schema f q p input = Inr (OK d, iss) \<Longrightarrow> \<exists>iss'. schema q p input = Inr (OK d, iss')"
  by (auto simp: superRefine_def split: sum.splits prod.splits ParseReturn.splits if_splits)

lemma safeParse_Success_D:
  "safeParse schema input = Inr (Success d) \<Longrightarrow> \<exists>iss. schema [] [] input = Inr (OK d, iss)"
  by (auto simp: safeParse_def split: sum.splits prod.splits ParseReturn.splits if_splits)

lemma trim_optional_chain_OK_D:
  assumes "preprocess trim_optional_chain (ZodString cs) [] p v = Inr (OK w, iss)"
  shows "\<exists>s. v = JStr s \<and> w = JStr (trim s)"
  using assms
  by (cases v) (auto simp: preprocess_def ZodString_def Let_def split: if_splits)

section \<open>Failing fields\<close>


lemma object_field_fails_any:
  assumes nt: "no_throw_any p kvs shape" and kt: "kt \<in> set shape"
    and ign: "ignores_issues (snd kt)"
    and r: "field_result p kvs kt = Inr (r, fiss)" and nok: "\<forall>v. r \<noteq> OK v"
  shows "\<exists>r' iss. ZodObject unknownKeys shape q p (JObj kvs) = Inr (r', iss)
           \<and> set fiss \<subseteq> set iss \<and> (r' = INVALID \<or> (\<exists>out. r' = DIRTY (JObj out)))"
proof -
  from parse_pairs_field [OF nt kt ign r, of q]
  obtain pairs iss where pp: "parse_pairs shape q p kvs = Inr (pairs, iss)"
    and pr: "(fst kt, r, js_in (fst kt) kvs) \<in> set pairs" and sub: "set fiss \<subseteq> set iss"
    by blast
  from pr nok have "\<exists>pr\<in>set pairs. \<forall>v. fst (snd pr) \<noteq> OK v" by force
  from mergeObjectSync_not_OK [OF this, of "unrecognized unknownKeys shape kvs" "[]"]
  show ?thesis
    using sub by (auto simp: ZodObject_def pp)
qed

lemma strict_object_fails:
  assumes res: "ZodObject strict shape q p (JObj kvs) = Inr x"
    and ex: "extraKeys shape kvs \<noteq> []"
  shows "\<exists>r' iss. x = (r', iss)
           \<and> \<lparr>code = unrecognized_keys (extraKeys shape kvs), path = p, message = None\<rparr> \<in> set iss
           \<and> (r' = INVALID \<or> (\<exists>out. r' = DIRTY (JObj out)))"
proof -
  have u: "unrecognized strict shape kvs" using ex by (simp add: unrecognized_def)
  from res obtain pairs iss0 where pp: "parse_pairs shape q p kvs = Inr (pairs, iss0)"
    by (auto simp: ZodObject_def split: sum.splits)
  from mergeObjectSync_dirty [of "[]" pairs] res show ?thesis
    by (auto simp: ZodObject_def pp u unrecognized_issues_def)
qed

lemma safeParse_failed_object:
  assumes "schema [] [] input = Inr (r, iss)" and "r = INVALID \<or> r = DIRTY v" and "iss \<noteq> []"
  shows "safeParse schema input = Inr (Failure iss)"
  using assms by (auto simp: safeParse_def)

lemma create_failed_object:
  assumes obj: "ZodObject strict (VendorCreateSeller_shape er) [] [] input = Inr (r, iss)"
    and r: "r = INVALID \<or> r = DIRTY (JObj out)" and i: "i \<in> set iss"
  shows "\<exists>iss'. safeParse (VendorCreateSeller er) input = Inr (Failure iss') \<and> i \<in> set iss'"
  using r i unfolding VendorCreateSeller_def
    safeParse_superRefine [where schema = "ZodObject strict (VendorCreateSeller_shape er)"
      and input = input, OF obj]
  by (auto simp: business_refinement_JObj)


lemma update_name_rule:
  "kt \<in> set (VendorUpdateSeller_shape er) \<Longrightarrow> fst kt = ascii ''name'' \<Longrightarrow>
   snd kt = ZodOptional (preprocess trim_call (ZodString [check_min 4]))"
  by (auto simp: VendorUpdateSeller_shape_def)


lemma no_throw_any_update:
  assumes "js_get kvs (ascii ''name'') \<in> {JUndefined} \<union> range JStr"
  shows "no_throw_any [] kvs (VendorUpdateSeller_shape er)"
  unfolding no_throw_any_def
proof (intro ballI allI)
  fix kt q assume kt: "kt \<in> set (VendorUpdateSeller_shape er)"
  show "\<exists>x. snd kt q ([] @ [fst kt]) (js_get kvs (fst kt)) = Inr x"
  proof (cases "fst kt = ascii ''name''")
    case True
    show ?thesis
      using assms unfolding update_name_rule [OF kt True] True
      by (auto simp: ZodOptional_def preprocess_def ZodString_def Let_def)
  next
    case False
    from never_raises_update [OF kt False] show ?thesis
      by (simp add: never_raises_def)
  qed
qed





lemma safeParse_Inr_D: "safeParse schema input = Inr res \<Longrightarrow> \<exists>x. schema [] [] input = Inr x"
  by (auto simp: safeParse_def split: sum.splits)

lemma superRefine_Inr_D: "superRefine schema f q p input = Inr x \<Longrightarrow> \<exists>y. schema q p input = Inr y"
  by (auto simp: superRefine_def split: sum.splits)

lemma update_strict:
  assumes ex: "extraKeys (VendorUpdateSeller_shape er) kvs \<noteq> []"
    and res: "safeParse (VendorUpdateSeller er) (JObj kvs) = Inr res"
  shows "\<exists>iss. res = Failure iss
           \<and> \<lparr>code = unrecognized_keys (extraKeys (VendorUpdateSeller_shape er) kvs), path = [],
               message = None\<rparr> \<in> set iss"
proof -
  let ?shape = "VendorUpdateSeller_shape er"
  from res obtain x where x: "ZodObject strict ?shape [] [] (JObj kvs) = Inr x"
    unfolding VendorUpdateSeller_def using safeParse_Inr_D by blast
  from strict_object_fails [OF x ex]
  obtain r' iss where obj: "ZodObject strict ?shape [] [] (JObj kvs) = Inr (r', iss)"
    and i: "\<lparr>code = unrecognized_keys (extraKeys ?shape kvs), path = [], message = None\<rparr> \<in> set iss"
    and r': "r' = INVALID \<or> (\<exists>out. r' = DIRTY (JObj out))" using x by blast
  have ne: "iss \<noteq> []" using i by auto
  from r' obtain v where r'': "r' = INVALID \<or> r' = DIRTY v" by blast
  have "safeParse (VendorUpdateSeller er) (JObj kvs) = Inr (Failure iss)"
    unfolding VendorUpdateSeller_def
    by (rule safeParse_failed_object [where schema = "ZodObject strict ?shape" and input = "JObj kvs",
        OF obj r'' ne])
  with res i show ?thesis by auto
qed

lemma create_strict:
  assumes ex: "extraKeys (VendorCreateSeller_shape er) kvs \<noteq> []"
    and res: "safeParse (VendorCreateSeller er) (JObj kvs) = Inr res"
  shows "\<exists>iss. res = Failure iss
           \<and> \<lparr>code = unrecognized_keys (extraKeys (VendorCreateSeller_shape er) kvs), path = [],
               message = None\<rparr> \<in> set iss"
proof -
  let ?shape = "VendorCreateSeller_shape er"
  from res obtain x where x: "ZodObject strict ?shape [] [] (JObj kvs) = Inr x"
    unfolding VendorCreateSeller_def using safeParse_Inr_D superRefine_Inr_D by blast
  from strict_object_fails [OF x ex]
  obtain r' iss where obj: "ZodObject strict ?shape [] [] (JObj kvs) = Inr (r', iss)"
    and i: "\<lparr>code = unrecognized_keys (extraKeys ?shape kvs), path = [], message = None\<rparr> \<in> set iss"
    and r': "r' = INVALID \<or> (\<exists>out. r' = DIRTY (JObj out))" using x by blast
  from r' obtain out where r'': "r' = INVALID \<or> r' = DIRTY (JObj out)" by blast
  from create_failed_object [OF obj r'' i] res show ?thesis by auto
qed

section \<open>The name after a failed registration type\<close>



















section \<open>Null values\<close>

lemma create_accepts_null:
  "kt \<in> set (VendorCreateSeller_shape er) \<Longrightarrow> fst kt \<in> set null_only_on_create \<Longrightarrow>
   js_get kvs (fst kt) = JNull \<Longrightarrow> satisfies_rule [] kvs kt"
  by (auto simp: VendorCreateSeller_shape_def null_only_on_create_def satisfies_rule_def
      field_result_def ZodOptional_def ZodNullable_def nullish_def)

lemma update_null_rejected:
  "kt \<in> set (VendorUpdateSeller_shape er) \<Longrightarrow> fst kt \<in> set null_only_on_create \<Longrightarrow>
   js_get kvs (fst kt) = JNull \<Longrightarrow>
   field_result [] kvs kt = Inr (INVALID, [\<lparr>code = invalid_type t_null, path = [fst kt], message = None\<rparr>])"
  by (auto simp: VendorUpdateSeller_shape_def null_only_on_create_def
      field_result_def ZodOptional_def ZodString_def)

lemma update_accepts_null_iff:
  "kt \<in> set (VendorUpdateSeller_shape er) \<Longrightarrow> js_get kvs (fst kt) = JNull \<Longrightarrow>
   satisfies_rule [] kvs kt \<longleftrightarrow>
     fst kt \<in> {ascii ''company_name'', ascii ''vat_number'', ascii ''tax_office''}"
  by (auto simp: VendorUpdateSeller_shape_def satisfies_rule_def field_result_def
      ZodOptional_def ZodNullable_def ZodString_def ZodEnum_def preprocess_def)

lemma null_only_on_create_update_key:
  "f \<in> set null_only_on_create \<Longrightarrow> \<exists>kt\<in>set (VendorUpdateSeller_shape er). fst kt = f"
  by (auto simp: null_only_on_create_def VendorUpdateSeller_shape_def)

lemma null_only_on_create_create_key:
  "f \<in> set null_only_on_create \<Longrightarrow> \<exists>kt\<in>set (VendorCreateSeller_shape er). fst kt = f"
  by (auto simp: null_only_on_create_def VendorCreateSeller_shape_def)

lemma null_only_on_create_not_name:
  "f \<in> set null_only_on_create \<Longrightarrow> f \<noteq> ascii ''name'' \<and> f \<noteq> ascii ''member''"
  by (auto simp: null_only_on_create_def)

lemma update_fails_on_null:
  assumes f: "f \<in> set null_only_on_create" and null: "js_get kvs f = JNull"
    and name: "js_get kvs (ascii ''name'') \<in> {JUndefined} \<union> range JStr"
  shows "\<exists>iss. safeParse (VendorUpdateSeller er) (JObj kvs) = Inr (Failure iss)
           \<and> \<lparr>code = invalid_type t_null, path = [f], message = None\<rparr> \<in> set iss"
proof -
  let ?shape = "VendorUpdateSeller_shape er"
  let ?i = "\<lparr>code = invalid_type t_null, path = [f], message = None\<rparr>"
  from null_only_on_create_update_key [OF f]
  obtain kt where kt: "kt \<in> set ?shape" and k: "fst kt = f" by blast
  have nt: "no_throw_any [] kvs ?shape" using name by (rule no_throw_any_update)
  have r: "field_result [] kvs kt = Inr (INVALID, [?i])"
    using update_null_rejected [OF kt] f null k by simp
  have ign: "ignores_issues (snd kt)"
    using ignores_issues_update [OF kt] null_only_on_create_not_name [OF f] k by simp
  from object_field_fails_any [OF nt kt ign r, of strict "[]"]
  obtain r' iss where obj: "ZodObject strict ?shape [] [] (JObj kvs) = Inr (r', iss)"
    and i: "?i \<in> set iss"
    and r': "r' = INVALID \<or> (\<exists>out. r' = DIRTY (JObj out))" by auto
  have ne: "iss \<noteq> []" using i by auto
  from r' obtain v where r'': "r' = INVALID \<or> r' = DIRTY v" by blast
  show ?thesis
    unfolding VendorUpdateSeller_def
    using safeParse_failed_object [where schema = "ZodObject strict ?shape" and input = "JObj kvs",
        OF obj r'' ne] i by blast
qed

lemma create_succeeds_with_null:
  assumes f: "f \<in> set null_only_on_create" and null: "js_get kvs f = JNull"
    and others: "\<forall>kt\<in>set (VendorCreateSeller_shape er). fst kt \<noteq> f \<longrightarrow> satisfies_rule [] kvs kt"
    and reg: "js_get kvs (ascii ''registration_type'') = JStr (ascii ''individual'')"
    and ex: "extraKeys (VendorCreateSeller_shape er) kvs = []"
  shows "\<exists>out. safeParse (VendorCreateSeller er) (JObj kvs) = Inr (Success (JObj out))
           \<and> js_get out f = JNull"
proof -
  let ?shape = "VendorCreateSeller_shape er"
  have sat: "\<forall>kt\<in>set ?shape. satisfies_rule [] kvs kt"
  proof
    fix kt assume kt: "kt \<in> set ?shape"
    show "satisfies_rule [] kvs kt"
    proof (cases "fst kt = f")
      case True
      with create_accepts_null [OF kt] f null show ?thesis by simp
    next
      case False
      with others kt show ?thesis by blast
    qed
  qed
  from null_only_on_create_create_key [OF f]
  obtain kt where kt: "kt \<in> set ?shape" and k: "fst kt = f" by blast
  from sat kt obtain v where v: "field_result [] kvs kt = Inr (OK v, [])"
    using satisfies_ruleD by blast
  have "passes_through (snd kt)"
    using passes_through_create [OF kt] null_only_on_create_not_name [OF f] k by simp
  then have "js_get (fields_out [] kvs ?shape) (fst kt) = js_get kvs (fst kt)"
    using js_get_fields_out_passes [OF distinct_create kt _ v] by simp
  then have g: "js_get (fields_out [] kvs ?shape) f = JNull"
    using k null by simp
  have "safeParse (VendorCreateSeller er) (JObj kvs) = Inr (Success (JObj (fields_out [] kvs ?shape)))"
    unfolding create_all_satisfy [OF sat]
    by (simp add: reg ex unrecognized_issues_def unrecognized_def)
  with g show ?thesis by blast
qed

section \<open>Exceptions of the trim preprocessing\<close>

lemma create_raises:
  assumes "js_get kvs (ascii ''name'') \<notin> {JUndefined, JNull} \<union> range JStr"
  shows "safeParse (VendorCreateSeller er) (JObj kvs) = Inl TypeError"
proof -
  have t: "trim_optional_chain (js_get kvs (ascii ''name'')) = Inl TypeError"
    using assms by (cases "js_get kvs (ascii ''name'')") auto
  obtain x where e: "ZodEnum [ascii ''individual'', ascii ''business''] [] [ascii ''registration_type'']
      (js_get kvs (ascii ''registration_type'')) = Inr x"
    using never_raises_ZodEnum unfolding never_raises_def by blast
  have "parse_pairs (VendorCreateSeller_shape er) [] [] kvs = Inl TypeError"
    unfolding VendorCreateSeller_shape_def
    by (cases x) (simp add: e preprocess_def t)
  then show ?thesis
    by (simp add: safeParse_def VendorCreateSeller_def superRefine_def ZodObject_def)
qed

lemma update_raises:
  assumes "js_get kvs (ascii ''name'') \<notin> {JUndefined} \<union> range JStr"
  shows "safeParse (VendorUpdateSeller er) (JObj kvs) = Inl TypeError"
proof -
  have t: "trim_call (js_get kvs (ascii ''name'')) = Inl TypeError"
    using assms by (cases "js_get kvs (ascii ''name'')") auto
  have n: "js_get kvs (ascii ''name'') \<noteq> JUndefined" using assms by auto
  obtain x where e: "ZodOptional (ZodEnum [ascii ''individual'', ascii ''business'']) []
      [ascii ''registration_type''] (js_get kvs (ascii ''registration_type'')) = Inr x"
    using never_raises_ZodOptional [OF never_raises_ZodEnum] unfolding never_raises_def by blast
  have "parse_pairs (VendorUpdateSeller_shape er) [] [] kvs = Inl TypeError"
    unfolding VendorUpdateSeller_shape_def
    by (cases x) (simp add: e ZodOptional_def [of "preprocess _ _"] preprocess_def t n)
  then show ?thesis
    by (simp add: safeParse_def VendorUpdateSeller_def ZodObject_def)
qed

section \<open>Exceptions\<close>

text \<open>
  C1 does not hold of the code. The function given to \<^verbatim>\<open>z.preprocess\<close> calls
  \<^verbatim>\<open>trim\<close> on the raw value before any type check: on \<^verbatim>\<open>VendorCreateSeller\<close> every
  input object whose \<^verbatim>\<open>name\<close> is neither a string nor \<^verbatim>\<open>null\<close> nor absent, and on
  \<^verbatim>\<open>VendorUpdateSeller\<close> every input object whose \<^verbatim>\<open>name\<close> is neither a string nor
  absent, makes \<^verbatim>\<open>safeParse\<close> raise a TypeError instead of returning a result.
\<close>

theorem name_not_a_string_raises:
  "(js_get kvs (ascii ''name'') \<notin> {JUndefined, JNull} \<union> range JStr \<longrightarrow>
      safeParse (VendorCreateSeller er) (JObj kvs) = Inl TypeError)
   \<and> (js_get kvs (ascii ''name'') \<notin> {JUndefined} \<union> range JStr \<longrightarrow>
      safeParse (VendorUpdateSeller er) (JObj kvs) = Inl TypeError)"
  using create_raises [of kvs er] update_raises [of kvs er] by blast

theorem name_not_a_string_raises_witness:
  "safeParse (VendorCreateSeller example_emailRegex)
     (JObj [(ascii ''registration_type'', JStr (ascii ''individual'')),
            (ascii ''name'', JNum 42),
            (ascii ''member'', JObj [(ascii ''name'', JStr (ascii ''Ann'')),
                                     (ascii ''email'', JStr (ascii ''a@b.co''))])])
     = Inl TypeError
   \<and> safeParse (VendorUpdateSeller example_emailRegex)
     (JObj [(ascii ''registration_type'', JStr (ascii ''individual'')),
            (ascii ''name'', JNum 42),
            (ascii ''member'', JObj [(ascii ''name'', JStr (ascii ''Ann'')),
                                     (ascii ''email'', JStr (ascii ''a@b.co''))])])
     = Inl TypeError"
proof -
  let ?kvs = "[(ascii ''registration_type'', JStr (ascii ''individual'')),
            (ascii ''name'', JNum 42),
            (ascii ''member'', JObj [(ascii ''name'', JStr (ascii ''Ann'')),
                                     (ascii ''email'', JStr (ascii ''a@b.co''))])]"
  have a: "js_get ?kvs (ascii ''name'') \<notin> {JUndefined, JNull} \<union> range JStr"
    by (auto simp: js_get_Cons)
  have b: "js_get ?kvs (ascii ''name'') \<notin> {JUndefined} \<union> range JStr"
    by (auto simp: js_get_Cons)
  from name_not_a_string_raises [of ?kvs example_emailRegex] a b show ?thesis by blast
qed

text \<open>The update callback has no optional chain: there \<^verbatim>\<open>{"name": null}\<close> raises as
  well, where the create callback turns \<^verbatim>\<open>null\<close> into \<^verbatim>\<open>undefined\<close>: the parse
  returns the issues of the two other required fields (and none for \<^verbatim>\<open>name\<close>, whose
  inner schema does not run after the issue of \<^verbatim>\<open>registration_type\<close>).\<close>

lemma null_name_raises_on_update:
  "safeParse (VendorUpdateSeller example_emailRegex) (JObj [(ascii ''name'', JNull)]) = Inl TypeError"
  by (simp add: zod_eval)

lemma null_name_does_not_raise_on_create:
  "safeParse (VendorCreateSeller example_emailRegex) (JObj [(ascii ''name'', JNull)]) =
     Inr (Failure [\<lparr>code = invalid_type t_undefined, path = [ascii ''registration_type''], message = None\<rparr>,
                   \<lparr>code = invalid_type t_undefined, path = [ascii ''member''], message = None\<rparr>])"
  by (simp add: zod_eval)

section \<open>The review validator\<close>

lemma VendorUpdateReview_parse:
  assumes "js_get kvs (ascii ''seller_note'') = JStr s"
  shows "VendorUpdateReview [] [] (JObj kvs) =
     (if length s > 300
      then Inr (DIRTY (JObj [(ascii ''seller_note'', JStr s)]),
                [\<lparr>code = too_big 300, path = [ascii ''seller_note''], message = None\<rparr>])
      else Inr (OK (JObj [(ascii ''seller_note'', JStr s)]), []))"
  using assms
  by (simp add: VendorUpdateReview_def ZodObject_def ZodString_def unrecognized_def
      unrecognized_issues_def)

text \<open>
  C7. The \<^verbatim>\<open>max(300)\<close> bound on \<^verbatim>\<open>seller_note\<close> is inclusive: an input whose
  \<^verbatim>\<open>seller_note\<close> is a string of at most 300 code units, so also one of exactly 300,
  succeeds; one of more than 300, so also one of 301, fails with the single issue
  \<^verbatim>\<open>too_big\<close> at the path \<^verbatim>\<open>["seller_note"]\<close>.
\<close>

theorem seller_note_max_inclusive:
  assumes "js_get kvs (ascii ''seller_note'') = JStr s"
  shows "safeParse VendorUpdateReview (JObj kvs) =
     (if length s \<le> 300
      then Inr (Success (JObj [(ascii ''seller_note'', JStr s)]))
      else Inr (Failure [\<lparr>code = too_big 300, path = [ascii ''seller_note''], message = None\<rparr>]))"
  by (simp add: safeParse_def VendorUpdateReview_parse [OF assms])

theorem seller_note_max_inclusive_witness:
  "safeParse VendorUpdateReview (JObj [(ascii ''seller_note'', JStr (replicate 300 97))]) =
     Inr (Success (JObj [(ascii ''seller_note'', JStr (replicate 300 97))]))
   \<and> safeParse VendorUpdateReview (JObj [(ascii ''seller_note'', JStr (replicate 301 97))]) =
     Inr (Failure [\<lparr>code = too_big 300, path = [ascii ''seller_note''], message = None\<rparr>])"
  using seller_note_max_inclusive [of "[(ascii ''seller_note'', JStr (replicate 300 97))]" "replicate 300 97"]
    seller_note_max_inclusive [of "[(ascii ''seller_note'', JStr (replicate 301 97))]" "replicate 301 97"]
  by (simp add: js_get_Cons)

text \<open>
  C9. \<^verbatim>\<open>VendorUpdateReview\<close> is not strict: every input whose \<^verbatim>\<open>seller_note\<close> is a
  string of at most 300 code units succeeds whatever other keys it has, and the normalized
  record holds \<^verbatim>\<open>seller_note\<close> alone. The strict schemas differ: on an input with
  undeclared keys, whenever \<^verbatim>\<open>VendorUpdateSeller\<close> or \<^verbatim>\<open>VendorCreateSeller\<close> returns a
  result, it is a failure that holds the issue \<^verbatim>\<open>unrecognized_keys\<close> with those keys.
\<close>

theorem review_strips_unknown_keys:
  "(js_get kvs (ascii ''seller_note'') = JStr s \<and> length s \<le> 300 \<longrightarrow>
      safeParse VendorUpdateReview (JObj kvs) = Inr (Success (JObj [(ascii ''seller_note'', JStr s)])))
   \<and> (extraKeys (VendorUpdateSeller_shape er) kvs \<noteq> []
        \<and> safeParse (VendorUpdateSeller er) (JObj kvs) = Inr res \<longrightarrow>
      (\<exists>iss. res = Failure iss
         \<and> \<lparr>code = unrecognized_keys (extraKeys (VendorUpdateSeller_shape er) kvs), path = [],
             message = None\<rparr> \<in> set iss))
   \<and> (extraKeys (VendorCreateSeller_shape er) kvs \<noteq> []
        \<and> safeParse (VendorCreateSeller er) (JObj kvs) = Inr res' \<longrightarrow>
      (\<exists>iss. res' = Failure iss
         \<and> \<lparr>code = unrecognized_keys (extraKeys (VendorCreateSeller_shape er) kvs), path = [],
             message = None\<rparr> \<in> set iss))"
  using update_strict [of er kvs res] create_strict [of er kvs res']
  by (auto simp: safeParse_def VendorUpdateReview_parse)

theorem review_strips_unknown_keys_witness:
  "safeParse VendorUpdateReview
     (JObj [(ascii ''seller_note'', JStr (ascii ''Thanks'')), (ascii ''rating'', JNum 5),
            (ascii ''admin'', JBool True)])
     = Inr (Success (JObj [(ascii ''seller_note'', JStr (ascii ''Thanks''))]))
   \<and> safeParse (VendorUpdateSeller example_emailRegex)
     (JObj [(ascii ''seller_note'', JStr (ascii ''Thanks'')), (ascii ''rating'', JNum 5),
            (ascii ''admin'', JBool True)])
     = Inr (Failure [\<lparr>code = unrecognized_keys [ascii ''seller_note'', ascii ''rating'', ascii ''admin''],
                      path = [], message = None\<rparr>])"
proof -
  let ?kvs = "[(ascii ''seller_note'', JStr (ascii ''Thanks'')), (ascii ''rating'', JNum 5),
            (ascii ''admin'', JBool True)]"
  let ?res = "Failure [\<lparr>code = unrecognized_keys [ascii ''seller_note'', ascii ''rating'', ascii ''admin''],
                      path = [], message = None\<rparr>]"
  have u: "safeParse (VendorUpdateSeller example_emailRegex) (JObj ?kvs) = Inr ?res"
    by (simp add: zod_eval)
  have e: "extraKeys (VendorUpdateSeller_shape example_emailRegex) ?kvs \<noteq> []"
    by (simp add: extraKeys_def VendorUpdateSeller_shape_def)
  have g: "js_get ?kvs (ascii ''seller_note'') = JStr (ascii ''Thanks'') \<and> length (ascii ''Thanks'') \<le> 300"
    by (simp add: js_get_Cons)
  from review_strips_unknown_keys [of ?kvs "ascii ''Thanks''" example_emailRegex ?res] g e u
  show ?thesis by blast
qed

section \<open>The conditional requirement of business registration\<close>

text \<open>
  C4. For every \<^verbatim>\<open>VendorCreateSeller\<close> input with \<^verbatim>\<open>registration_type = "business"\<close>,
  with \<^verbatim>\<open>company_name\<close>, \<^verbatim>\<open>vat_number\<close> and \<^verbatim>\<open>tax_office\<close> absent and every
  other declared field satisfying its rule, the result is a failure whose issues are the three
  custom issues, one at each of the paths \<^verbatim>\<open>["company_name"]\<close>,
  \<^verbatim>\<open>["vat_number"]\<close> and \<^verbatim>\<open>["tax_office"]\<close>, in this order: all three are checked.
  No issue lies at another field's path; the only other issue there can be is the one for
  undeclared keys, at the root path, when the input has such keys.
\<close>

theorem business_requires_three:
  assumes reg: "js_get kvs (ascii ''registration_type'') = JStr (ascii ''business'')"
    and absent: "\<not> js_in (ascii ''company_name'') kvs" "\<not> js_in (ascii ''vat_number'') kvs"
      "\<not> js_in (ascii ''tax_office'') kvs"
    and others: "\<forall>kt\<in>set (VendorCreateSeller_shape er).
      fst kt \<notin> {ascii ''company_name'', ascii ''vat_number'', ascii ''tax_office''}
      \<longrightarrow> satisfies_rule [] kvs kt"
  shows "safeParse (VendorCreateSeller er) (JObj kvs) =
     Inr (Failure (unrecognized_issues strict (VendorCreateSeller_shape er) [] kvs
                   @ [company_name_issue, vat_number_issue, tax_office_issue]))"
proof -
  note u = absent [THEN js_get_absent]
  have sat: "\<forall>kt\<in>set (VendorCreateSeller_shape er). satisfies_rule [] kvs kt"
  proof
    fix kt assume kt: "kt \<in> set (VendorCreateSeller_shape er)"
    show "satisfies_rule [] kvs kt"
    proof (cases "fst kt \<in> {ascii ''company_name'', ascii ''vat_number'', ascii ''tax_office''}")
      case True
      then have "js_get kvs (fst kt) = JUndefined" using u by auto
      then show ?thesis
        by (simp add: satisfies_rule_def field_result_def create_dependent_rule [OF kt True]
            dependent_not_provided)
    next
      case False
      with others kt show ?thesis by blast
    qed
  qed
  show ?thesis
    unfolding create_all_satisfy [OF sat]
    by (simp add: reg u required_for_business_def Let_def
        company_name_issue_def vat_number_issue_def tax_office_issue_def)
qed

theorem business_requires_three_witness:
  "safeParse (VendorCreateSeller example_emailRegex)
     (JObj [(ascii ''registration_type'', JStr (ascii ''business'')),
            (ascii ''name'', JStr (ascii ''Acme'')),
            (ascii ''member'', JObj [(ascii ''name'', JStr (ascii ''Ann'')),
                                     (ascii ''email'', JStr (ascii ''a@b.co''))])])
   = Inr (Failure [company_name_issue, vat_number_issue, tax_office_issue])"
  using business_requires_three [of
      "[(ascii ''registration_type'', JStr (ascii ''business'')),
        (ascii ''name'', JStr (ascii ''Acme'')),
        (ascii ''member'', JObj [(ascii ''name'', JStr (ascii ''Ann'')),
                                 (ascii ''email'', JStr (ascii ''a@b.co''))])]"
      example_emailRegex]
  by (simp add: zod_eval trim_Acme example_email_ok)

text \<open>
  C2, as the spec states it, fails: with \<^verbatim>\<open>registration_type = "business"\<close>,
  \<^verbatim>\<open>company_name\<close> absent and the unrelated field \<^verbatim>\<open>phone\<close> holding a number, the
  object parse aborts on \<^verbatim>\<open>phone\<close>, the refinement does not run, and the only issue is the
  one at \<^verbatim>\<open>["phone"]\<close>.
\<close>

theorem refinement_skipped_counterexample:
  "safeParse (VendorCreateSeller example_emailRegex)
     (JObj [(ascii ''registration_type'', JStr (ascii ''business'')),
            (ascii ''name'', JStr (ascii ''Acme'')),
            (ascii ''phone'', JNum 5),
            (ascii ''member'', JObj [(ascii ''name'', JStr (ascii ''Ann'')),
                                     (ascii ''email'', JStr (ascii ''a@b.co''))])])
   = Inr (Failure [\<lparr>code = invalid_type t_number, path = [ascii ''phone''], message = None\<rparr>])
   \<and> company_name_issue \<notin> set [\<lparr>code = invalid_type t_number, path = [ascii ''phone''], message = None\<rparr>]"
  by (simp add: zod_eval trim_Acme example_email_ok)

text \<open>
  C2, amended. For every \<^verbatim>\<open>VendorCreateSeller\<close> input with
  \<^verbatim>\<open>registration_type = "business"\<close> and \<^verbatim>\<open>company_name\<close> absent in which no declared
  field aborts (a field may fail a string check such as the email format or the minimum
  length, which leaves its status dirty, but no field has a wrong type, is missing though
  required, or holds a value outside its enum), the refinement still runs: the result is a
  failure whose issue list holds every issue of every field together with the custom issue at
  \<^verbatim>\<open>["company_name"]\<close>.
\<close>

theorem refinement_runs_when_not_aborted:
  assumes na: "\<forall>kt\<in>set (VendorCreateSeller_shape er). not_aborted [] kvs kt"
    and reg: "js_get kvs (ascii ''registration_type'') = JStr (ascii ''business'')"
    and absent: "\<not> js_in (ascii ''company_name'') kvs"
    and kt: "kt \<in> set (VendorCreateSeller_shape er)"
    and i: "i \<in> set (issues_of [] kvs kt)"
  shows "\<exists>iss. safeParse (VendorCreateSeller er) (JObj kvs) = Inr (Failure iss)
           \<and> i \<in> set iss \<and> company_name_issue \<in> set iss"
proof -
  let ?shape = "VendorCreateSeller_shape er"
  let ?out = "fields_out [] kvs ?shape"
  let ?iss = "object_issues strict ?shape [] kvs"
  have "js_get kvs (ascii ''registration_type'')
      \<in> {JStr (ascii ''individual''), JStr (ascii ''business'')}"
    by (simp add: reg)
  from not_aborted_object [OF distinct_create na unaffected_create [OF this], of strict]
  obtain r where obj: "ZodObject strict ?shape [] [] (JObj kvs) = Inr (r, ?iss)"
    and r: "r = DIRTY (JObj ?out) \<or> r = OK (JObj ?out)" by blast
  have i_in: "i \<in> set ?iss"
    using kt i by (rule issues_of_object_issues)
  have same: "js_get ?out k = js_get kvs k"
    if "k \<in> fst ` set ?shape" "k \<noteq> ascii ''name''" "k \<noteq> ascii ''member''" for k
  proof -
    from that obtain kt' where kt': "kt' \<in> set ?shape" and k: "k = fst kt'" by auto
    from na kt' obtain r' iss' where v: "field_result [] kvs kt' = Inr (r', iss')" "r' \<noteq> INVALID"
      using not_abortedD by blast
    have "passes_through (snd kt')"
      using passes_through_create [OF kt'] that k by simp
    then show ?thesis
      unfolding k using js_get_fields_out_passes [OF distinct_create kt' _ v] by simp
  qed
  have g1: "js_get ?out (ascii ''registration_type'') = JStr (ascii ''business'')"
    unfolding reg [symmetric] by (rule same) (simp_all add: VendorCreateSeller_shape_def)
  have "js_get ?out (ascii ''company_name'') = js_get kvs (ascii ''company_name'')"
    by (rule same) (simp_all add: VendorCreateSeller_shape_def)
  then have g2: "js_get ?out (ascii ''company_name'') = JUndefined"
    using js_get_absent [OF absent] by simp
  obtain added where ref: "business_refinement (JObj ?out) = Inr added"
    and cn: "company_name_issue \<in> set added"
    by (simp add: business_refinement_JObj g1 g2 required_for_business_def company_name_issue_def)
  from r show ?thesis
  proof
    assume "r = DIRTY (JObj ?out)"
    then show ?thesis
      unfolding VendorCreateSeller_def
        safeParse_superRefine [where schema = "ZodObject strict ?shape" and input = "JObj kvs", OF obj]
      using ref cn i_in by auto
  next
    assume "r = OK (JObj ?out)"
    then show ?thesis
      unfolding VendorCreateSeller_def
        safeParse_superRefine [where schema = "ZodObject strict ?shape" and input = "JObj kvs", OF obj]
      using ref cn i_in by auto
  qed
qed

theorem refinement_runs_when_not_aborted_witness:
  "\<exists>iss. safeParse (VendorCreateSeller example_emailRegex)
     (JObj [(ascii ''registration_type'', JStr (ascii ''business'')),
            (ascii ''name'', JStr (ascii ''Acme'')),
            (ascii ''member'', JObj [(ascii ''name'', JStr (ascii ''Ann'')),
                                     (ascii ''email'', JStr (ascii ''not-an-email''))])])
     = Inr (Failure iss)
   \<and> \<lparr>code = invalid_string, path = [ascii ''member'', ascii ''email''], message = None\<rparr> \<in> set iss
   \<and> company_name_issue \<in> set iss"
proof -
  let ?kvs = "[(ascii ''registration_type'', JStr (ascii ''business'')),
            (ascii ''name'', JStr (ascii ''Acme'')),
            (ascii ''member'', JObj [(ascii ''name'', JStr (ascii ''Ann'')),
                                     (ascii ''email'', JStr (ascii ''not-an-email''))])]"
  let ?kt = "(ascii ''member'', ZodObject strip (member_shape example_emailRegex))"
  have na: "\<forall>kt\<in>set (VendorCreateSeller_shape example_emailRegex). not_aborted [] ?kvs kt"
    by (simp add: zod_eval trim_Acme example_email_bad)
  have reg: "js_get ?kvs (ascii ''registration_type'') = JStr (ascii ''business'')"
    by (simp add: js_get_Cons)
  have absent: "\<not> js_in (ascii ''company_name'') ?kvs"
    by (simp add: js_in_def)
  have kt: "?kt \<in> set (VendorCreateSeller_shape example_emailRegex)"
    by (simp add: VendorCreateSeller_shape_def)
  have i: "\<lparr>code = invalid_string, path = [ascii ''member'', ascii ''email''], message = None\<rparr>
      \<in> set (issues_of [] ?kvs ?kt)"
    by (simp add: issues_of_def zod_eval example_email_bad)
  from refinement_runs_when_not_aborted [OF na reg absent kt i] show ?thesis .
qed

text \<open>
  C5. For every \<^verbatim>\<open>VendorCreateSeller\<close> input with \<^verbatim>\<open>registration_type = "business"\<close>
  in which every declared field satisfies its own rule, a \<^verbatim>\<open>company_name\<close> (likewise
  \<^verbatim>\<open>vat_number\<close>, \<^verbatim>\<open>tax_office\<close>) that is the empty string or \<^verbatim>\<open>null\<close> is treated
  as an absent one: the result is a failure with the custom issue at that field's path, whose
  message names the field and business registration.
\<close>

theorem falsy_dependent_is_not_provided:
  assumes reg: "js_get kvs (ascii ''registration_type'') = JStr (ascii ''business'')"
    and sat: "\<forall>kt\<in>set (VendorCreateSeller_shape er). satisfies_rule [] kvs kt"
  shows "(js_get kvs (ascii ''company_name'') \<in> {JUndefined, JNull, JStr []} \<longrightarrow>
            (\<exists>iss. safeParse (VendorCreateSeller er) (JObj kvs) = Inr (Failure iss)
               \<and> company_name_issue \<in> set iss))
       \<and> (js_get kvs (ascii ''vat_number'') \<in> {JUndefined, JNull, JStr []} \<longrightarrow>
            (\<exists>iss. safeParse (VendorCreateSeller er) (JObj kvs) = Inr (Failure iss)
               \<and> vat_number_issue \<in> set iss))
       \<and> (js_get kvs (ascii ''tax_office'') \<in> {JUndefined, JNull, JStr []} \<longrightarrow>
            (\<exists>iss. safeParse (VendorCreateSeller er) (JObj kvs) = Inr (Failure iss)
               \<and> tax_office_issue \<in> set iss))"
  unfolding create_all_satisfy [OF sat]
  by (auto simp: reg required_for_business_def Let_def
      company_name_issue_def vat_number_issue_def tax_office_issue_def)

theorem falsy_dependent_is_not_provided_witness:
  "\<exists>iss. safeParse (VendorCreateSeller example_emailRegex)
     (JObj [(ascii ''registration_type'', JStr (ascii ''business'')),
            (ascii ''name'', JStr (ascii ''Acme'')),
            (ascii ''company_name'', JStr []),
            (ascii ''vat_number'', JNull),
            (ascii ''member'', JObj [(ascii ''name'', JStr (ascii ''Ann'')),
                                     (ascii ''email'', JStr (ascii ''a@b.co''))])])
     = Inr (Failure iss)
   \<and> company_name_issue \<in> set iss \<and> vat_number_issue \<in> set iss \<and> tax_office_issue \<in> set iss"
proof -
  let ?kvs = "[(ascii ''registration_type'', JStr (ascii ''business'')),
            (ascii ''name'', JStr (ascii ''Acme'')),
            (ascii ''company_name'', JStr []),
            (ascii ''vat_number'', JNull),
            (ascii ''member'', JObj [(ascii ''name'', JStr (ascii ''Ann'')),
                                     (ascii ''email'', JStr (ascii ''a@b.co''))])]"
  have reg: "js_get ?kvs (ascii ''registration_type'') = JStr (ascii ''business'')"
    by (simp add: js_get_Cons)
  have sat: "\<forall>kt\<in>set (VendorCreateSeller_shape example_emailRegex). satisfies_rule [] ?kvs kt"
    by (simp add: zod_eval trim_Acme example_email_ok)
  from falsy_dependent_is_not_provided [OF reg sat]
  show ?thesis by (auto simp: js_get_Cons js_get_Nil)
qed

section \<open>Normalization\<close>

text \<open>
  C3, as the spec states it, fails: a successful input whose \<^verbatim>\<open>description\<close> has
  surrounding spaces keeps them in the normalized record.
\<close>

theorem description_not_trimmed_counterexample:
  "safeParse (VendorCreateSeller example_emailRegex)
     (JObj [(ascii ''registration_type'', JStr (ascii ''individual'')),
            (ascii ''name'', JStr (ascii ''Acme'')),
            (ascii ''description'', JStr (ascii '' x '')),
            (ascii ''member'', JObj [(ascii ''name'', JStr (ascii ''Ann'')),
                                     (ascii ''email'', JStr (ascii ''a@b.co''))])])
   = Inr (Success (JObj [(ascii ''registration_type'', JStr (ascii ''individual'')),
            (ascii ''name'', JStr (ascii ''Acme'')),
            (ascii ''description'', JStr (ascii '' x '')),
            (ascii ''member'', JObj [(ascii ''name'', JStr (ascii ''Ann'')),
                                     (ascii ''email'', JStr (ascii ''a@b.co''))])]))
   \<and> trim (ascii '' x '') \<noteq> ascii '' x ''"
  by (simp add: zod_eval trim_Acme example_email_ok trim_x)

text \<open>
  C3, amended. For every \<^verbatim>\<open>VendorCreateSeller\<close> input that succeeds, the input is an
  object whose \<^verbatim>\<open>name\<close> is a string, and in the normalized record \<^verbatim>\<open>name\<close> is that
  string trimmed of surrounding whitespace (trimming it again changes nothing); every other
  declared top-level field but the nested \<^verbatim>\<open>member\<close> has exactly the value it had in the
  input, untrimmed.
\<close>

theorem only_name_is_trimmed:
  assumes "safeParse (VendorCreateSeller er) input = Inr (Success d)"
  shows "\<exists>kvs out s. input = JObj kvs \<and> d = JObj out
           \<and> js_get kvs (ascii ''name'') = JStr s
           \<and> js_get out (ascii ''name'') = JStr (trim s)
           \<and> trim (trim s) = trim s
           \<and> (\<forall>k\<in>set (map fst (VendorCreateSeller_shape er)).
                 k \<noteq> ascii ''name'' \<longrightarrow> k \<noteq> ascii ''member'' \<longrightarrow> js_get out k = js_get kvs k)"
proof -
  let ?shape = "VendorCreateSeller_shape er"
  from assms obtain iss where "ZodObject strict ?shape [] [] input = Inr (OK d, iss)"
    unfolding VendorCreateSeller_def using safeParse_Success_D superRefine_OK_D by blast
  from ZodObject_OK_D [OF distinct_create stable_create_fields this]
  obtain kvs where inp: "input = JObj kvs" and d: "d = JObj (fields_out [] kvs ?shape)"
    and ok: "\<forall>kt\<in>set ?shape. \<exists>v. field_result [] kvs kt = Inr (OK v, [])"
    by blast
  let ?out = "fields_out [] kvs ?shape"
  let ?name = "(ascii ''name'', preprocess trim_optional_chain (ZodString [check_min 1]))"
  have name_in: "?name \<in> set ?shape"
    by (simp add: VendorCreateSeller_shape_def)
  with ok obtain w where w: "field_result [] kvs ?name = Inr (OK w, [])" by blast
  then obtain s where s: "js_get kvs (ascii ''name'') = JStr s" and ws: "w = JStr (trim s)"
    using trim_optional_chain_OK_D by (fastforce simp: field_result_def)
  have "js_get ?out (fst ?name) = value_of (field_return [] kvs ?name)"
    by (rule js_get_fields_out [OF distinct_create name_in])
  then have out_name: "js_get ?out (ascii ''name'') = JStr (trim s)"
    using field_result_return [OF w] ws by simp
  have same: "js_get ?out k = js_get kvs k"
    if "k \<in> set (map fst ?shape)" "k \<noteq> ascii ''name''" "k \<noteq> ascii ''member''" for k
  proof -
    from that obtain kt where kt: "kt \<in> set ?shape" and k: "k = fst kt" by auto
    from ok kt obtain v where v: "field_result [] kvs kt = Inr (OK v, [])" by blast
    have "passes_through (snd kt)"
      using passes_through_create [OF kt] that k by simp
    then show ?thesis
      unfolding k using js_get_fields_out_passes [OF distinct_create kt _ v] by simp
  qed
  show ?thesis
    using inp d s out_name same trim_idem by blast
qed

theorem only_name_is_trimmed_witness:
  "\<exists>kvs out s.
     JObj [(ascii ''registration_type'', JStr (ascii ''individual'')),
           (ascii ''name'', JStr (ascii '' Acme  '')),
           (ascii ''description'', JStr (ascii '' x '')),
           (ascii ''member'', JObj [(ascii ''name'', JStr (ascii ''Ann'')),
                                    (ascii ''email'', JStr (ascii ''a@b.co''))])] = JObj kvs
     \<and> JObj [(ascii ''registration_type'', JStr (ascii ''individual'')),
           (ascii ''name'', JStr (ascii ''Acme'')),
           (ascii ''description'', JStr (ascii '' x '')),
           (ascii ''member'', JObj [(ascii ''name'', JStr (ascii ''Ann'')),
                                    (ascii ''email'', JStr (ascii ''a@b.co''))])] = JObj out
     \<and> js_get kvs (ascii ''name'') = JStr s
     \<and> js_get out (ascii ''name'') = JStr (trim s)
     \<and> trim (trim s) = trim s
     \<and> (\<forall>k\<in>set (map fst (VendorCreateSeller_shape example_emailRegex)).
           k \<noteq> ascii ''name'' \<longrightarrow> k \<noteq> ascii ''member'' \<longrightarrow> js_get out k = js_get kvs k)"
proof -
  have "safeParse (VendorCreateSeller example_emailRegex)
     (JObj [(ascii ''registration_type'', JStr (ascii ''individual'')),
            (ascii ''name'', JStr (ascii '' Acme  '')),
            (ascii ''description'', JStr (ascii '' x '')),
            (ascii ''member'', JObj [(ascii ''name'', JStr (ascii ''Ann'')),
                                     (ascii ''email'', JStr (ascii ''a@b.co''))])])
   = Inr (Success (JObj [(ascii ''registration_type'', JStr (ascii ''individual'')),
            (ascii ''name'', JStr (ascii ''Acme'')),
            (ascii ''description'', JStr (ascii '' x '')),
            (ascii ''member'', JObj [(ascii ''name'', JStr (ascii ''Ann'')),
                                     (ascii ''email'', JStr (ascii ''a@b.co''))])]))"
    by (simp add: zod_eval trim_Acme_padded example_email_ok)
  from only_name_is_trimmed [OF this] show ?thesis .
qed




section \<open>Idempotence\<close>

text \<open>
  C8. Validation is idempotent on its own output: if \<^verbatim>\<open>VendorCreateSeller\<close> succeeds on an
  input with the normalized record \<open>r\<close>, then it succeeds on \<open>r\<close> with the normalized record
  \<open>r\<close> again.
\<close>

theorem validation_idempotent:
  assumes "safeParse (VendorCreateSeller er) input = Inr (Success r)"
  shows "safeParse (VendorCreateSeller er) r = Inr (Success r)"
proof -
  from assms obtain iss where "VendorCreateSeller er [] [] input = Inr (OK r, iss)"
    by (auto simp: safeParse_def split: sum.splits prod.splits ParseReturn.splits if_splits)
  with stable_VendorCreateSeller [of er] have "VendorCreateSeller er [] [] r = Inr (OK r, [])"
    unfolding stable_def by blast
  then show ?thesis by (simp add: safeParse_def)
qed

theorem validation_idempotent_witness:
  "safeParse (VendorCreateSeller example_emailRegex)
     (JObj [(ascii ''member'', JObj [(ascii ''email'', JStr (ascii ''a@b.co'')),
                                     (ascii ''name'', JStr (ascii ''Ann'')),
                                     (ascii ''age'', JNum 30)]),
            (ascii ''name'', JStr (ascii '' Acme  '')),
            (ascii ''registration_type'', JStr (ascii ''individual'')),
            (ascii ''description'', JNull)])
   = Inr (Success (JObj [(ascii ''registration_type'', JStr (ascii ''individual'')),
            (ascii ''name'', JStr (ascii ''Acme'')),
            (ascii ''description'', JNull),
            (ascii ''member'', JObj [(ascii ''name'', JStr (ascii ''Ann'')),
                                     (ascii ''email'', JStr (ascii ''a@b.co''))])]))
   \<and> safeParse (VendorCreateSeller example_emailRegex)
     (JObj [(ascii ''registration_type'', JStr (ascii ''individual'')),
            (ascii ''name'', JStr (ascii ''Acme'')),
            (ascii ''description'', JNull),
            (ascii ''member'', JObj [(ascii ''name'', JStr (ascii ''Ann'')),
                                     (ascii ''email'', JStr (ascii ''a@b.co''))])])
   = Inr (Success (JObj [(ascii ''registration_type'', JStr (ascii ''individual'')),
            (ascii ''name'', JStr (ascii ''Acme'')),
            (ascii ''description'', JNull),
            (ascii ''member'', JObj [(ascii ''name'', JStr (ascii ''Ann'')),
                                     (ascii ''email'', JStr (ascii ''a@b.co''))])]))"
proof -
  have first: "safeParse (VendorCreateSeller example_emailRegex)
     (JObj [(ascii ''member'', JObj [(ascii ''email'', JStr (ascii ''a@b.co'')),
                                     (ascii ''name'', JStr (ascii ''Ann'')),
                                     (ascii ''age'', JNum 30)]),
            (ascii ''name'', JStr (ascii '' Acme  '')),
            (ascii ''registration_type'', JStr (ascii ''individual'')),
            (ascii ''description'', JNull)])
   = Inr (Success (JObj [(ascii ''registration_type'', JStr (ascii ''individual'')),
            (ascii ''name'', JStr (ascii ''Acme'')),
            (ascii ''description'', JNull),
            (ascii ''member'', JObj [(ascii ''name'', JStr (ascii ''Ann'')),
                                     (ascii ''email'', JStr (ascii ''a@b.co''))])]))"
    by (simp add: zod_eval trim_Acme_padded example_email_ok)
  from first validation_idempotent [OF first] show ?thesis by (rule conjI)
qed

section \<open>Null values on create and on update\<close>

text \<open>
  C10. Null acceptance differs between create and update. For each of the fields
  \<^verbatim>\<open>description\<close>, \<^verbatim>\<open>photo\<close>, \<^verbatim>\<open>email\<close>, \<^verbatim>\<open>phone\<close>, \<^verbatim>\<open>address_line\<close>,
  \<^verbatim>\<open>city\<close>, \<^verbatim>\<open>state\<close>, \<^verbatim>\<open>postal_code\<close>, \<^verbatim>\<open>country_code\<close> and \<^verbatim>\<open>tax_id\<close>:
  on \<^verbatim>\<open>VendorCreateSeller\<close> a present \<^verbatim>\<open>null\<close> satisfies the field's rule, and an input
  of an individual with no undeclared key whose other fields satisfy their rules succeeds and
  keeps the \<^verbatim>\<open>null\<close>; on \<^verbatim>\<open>VendorUpdateSeller\<close> every input with a \<^verbatim>\<open>null\<close> there
  (and a \<^verbatim>\<open>name\<close> that is absent or a string) fails with the issue \<^verbatim>\<open>invalid_type\<close>,
  received \<^verbatim>\<open>null\<close>, at the field's path. Of all the fields of \<^verbatim>\<open>VendorUpdateSeller\<close>,
  a \<^verbatim>\<open>null\<close> satisfies the rule of \<^verbatim>\<open>company_name\<close>, \<^verbatim>\<open>vat_number\<close> and
  \<^verbatim>\<open>tax_office\<close> only.
\<close>

theorem null_accepted_on_create_only:
  "(\<forall>kt\<in>set (VendorCreateSeller_shape er).
      fst kt \<in> set null_only_on_create \<longrightarrow> js_get kvs (fst kt) = JNull \<longrightarrow> satisfies_rule [] kvs kt)
   \<and> (\<forall>f\<in>set null_only_on_create.
        js_get kvs f = JNull
        \<and> (\<forall>kt\<in>set (VendorCreateSeller_shape er). fst kt \<noteq> f \<longrightarrow> satisfies_rule [] kvs kt)
        \<and> js_get kvs (ascii ''registration_type'') = JStr (ascii ''individual'')
        \<and> extraKeys (VendorCreateSeller_shape er) kvs = [] \<longrightarrow>
        (\<exists>out. safeParse (VendorCreateSeller er) (JObj kvs) = Inr (Success (JObj out))
           \<and> js_get out f = JNull))
   \<and> (\<forall>f\<in>set null_only_on_create.
        js_get kvs' f = JNull \<and> js_get kvs' (ascii ''name'') \<in> {JUndefined} \<union> range JStr \<longrightarrow>
        (\<exists>iss. safeParse (VendorUpdateSeller er) (JObj kvs') = Inr (Failure iss)
           \<and> \<lparr>code = invalid_type t_null, path = [f], message = None\<rparr> \<in> set iss))
   \<and> (\<forall>kt\<in>set (VendorUpdateSeller_shape er).
        js_get kvs' (fst kt) = JNull \<longrightarrow>
        (satisfies_rule [] kvs' kt \<longleftrightarrow>
           fst kt \<in> {ascii ''company_name'', ascii ''vat_number'', ascii ''tax_office''}))"
  using create_accepts_null [of _ er kvs] create_succeeds_with_null [of _ kvs er]
    update_fails_on_null [of _ kvs' er] update_accepts_null_iff [of _ er kvs']
  by (intro conjI ballI impI) blast+

theorem null_accepted_on_create_only_witness:
  "(\<exists>out. safeParse (VendorCreateSeller example_emailRegex)
       (JObj [(ascii ''registration_type'', JStr (ascii ''individual'')),
              (ascii ''name'', JStr (ascii ''Acme'')),
              (ascii ''description'', JNull),
              (ascii ''member'', JObj [(ascii ''name'', JStr (ascii ''Ann'')),
                                       (ascii ''email'', JStr (ascii ''a@b.co''))])])
       = Inr (Success (JObj out))
     \<and> js_get out (ascii ''description'') = JNull)
   \<and> (\<exists>iss. safeParse (VendorUpdateSeller example_emailRegex)
       (JObj [(ascii ''description'', JNull)]) = Inr (Failure iss)
     \<and> \<lparr>code = invalid_type t_null, path = [ascii ''description''], message = None\<rparr> \<in> set iss)"
proof -
  let ?c = "[(ascii ''registration_type'', JStr (ascii ''individual'')),
              (ascii ''name'', JStr (ascii ''Acme'')),
              (ascii ''description'', JNull),
              (ascii ''member'', JObj [(ascii ''name'', JStr (ascii ''Ann'')),
                                       (ascii ''email'', JStr (ascii ''a@b.co''))])]"
  let ?u = "[(ascii ''description'', JNull)]"
  have f: "ascii ''description'' \<in> set null_only_on_create"
    by (simp add: null_only_on_create_def)
  have h1: "js_get ?c (ascii ''description'') = JNull" by (simp add: js_get_Cons)
  have h2: "\<forall>kt\<in>set (VendorCreateSeller_shape example_emailRegex).
      fst kt \<noteq> ascii ''description'' \<longrightarrow> satisfies_rule [] ?c kt"
    by (simp add: zod_eval trim_Acme example_email_ok)
  have h3: "js_get ?c (ascii ''registration_type'') = JStr (ascii ''individual'')"
    by (simp add: js_get_Cons)
  have h4: "extraKeys (VendorCreateSeller_shape example_emailRegex) ?c = []"
    by (simp add: extraKeys_def VendorCreateSeller_shape_def)
  have h5: "js_get ?u (ascii ''description'') = JNull" by (simp add: js_get_Cons)
  have h6: "js_get ?u (ascii ''name'') \<in> {JUndefined} \<union> range JStr"
    by (simp add: js_get_Cons js_get_Nil)
  from null_accepted_on_create_only [of example_emailRegex ?c ?u] f h1 h2 h3 h4 h5 h6
  show ?thesis by blast
qed

end
